(* ===== verification/Prelude.thy ===== *)
theory Prelude
  imports Main "HOL-Library.Word" "HOL-Library.Monad_Syntax" "HOL-Library.Sublist"
begin

text \<open>
  Shared vocabulary of the development: the machine integer types of the C sources, the
  macro \<open>ALIGN_UP\<close> of \<open>include/utils.h\<close>, and the shape of a C procedure: a
  state-passing function whose value \<open>None\<close> is an abnormal end of the process (a failed
  \<open>assert\<close>, an access through a null pointer or outside an object). The predicate
  \<open>returns\<close> is the total-correctness judgement on such procedures; its rules
  (\<open>returns_simps\<close>) are what the component theories compute with.
\<close>

unbundle bit_operations_syntax

named_theorems frames \<open>what a procedure leaves unchanged\<close>

section \<open>Machine integers\<close>

type_synonym u8 = "8 word"
type_synonym u32 = "32 word"
type_synonym u64 = "64 word"

text \<open>The conversion \<open>(size_t)n\<close> of a C \<open>int\<close> or \<open>ssize_t\<close>: sign extension to
  64 bits, so that a negative value becomes a huge one.\<close>

abbreviation (input) size_t_of_int :: "int \<Rightarrow> u64" where
  "size_t_of_int n \<equiv> word_of_int n"

lemma unat_size_t_of_int:
  "0 \<le> n \<Longrightarrow> n < 2 ^ 63 \<Longrightarrow> unat (size_t_of_int n) = nat n"
  by (simp add: unsigned_of_int take_bit_int_eq_self)

lemma unat_word_add_no_wrap:
  fixes a b :: "'a::len word"
  shows "unat a + unat b < 2 ^ LENGTH('a) \<Longrightarrow> unat (a + b) = unat a + unat b"
  by (simp add: unat_word_ariths)

lemma unat_word_sub_no_wrap:
  fixes a b :: "'a::len word"
  shows "unat b \<le> unat a \<Longrightarrow> unat (a - b) = unat a - unat b"
  by (simp add: unat_sub word_le_nat_alt)

lemma unat_word_double:
  fixes a :: "'a::len word"
  shows "2 * unat a < 2 ^ LENGTH('a) \<Longrightarrow> unat (a * 2) = 2 * unat a"
  using unat_word_add_no_wrap [of a a] by (simp only: mult_2 mult_2_right)

section \<open>ALIGN\_UP\<close>

definition ALIGN_UP :: "'a::len word \<Rightarrow> 'a word \<Rightarrow> 'a word" where
  "ALIGN_UP val align = (val + align - 1) AND NOT (align - 1)"

lemma and_not_mask_eq: "(x :: 'a::len word) AND NOT (mask n) = x - take_bit n x"
proof -
  have "x = (x AND NOT (mask n)) + (x AND mask n)"
    by (subst disjunctive_add_eq_or) (simp_all add: bit_eq_iff bit_simps, auto)
  then show ?thesis by (simp add: take_bit_eq_mask algebra_simps)
qed

lemma unat_and_not_mask:
  "unat ((x :: 'a::len word) AND NOT (mask n)) = unat x - unat x mod 2 ^ n"
proof -
  have take: "unat (take_bit n x) = unat x mod 2 ^ n"
    unfolding unsigned_take_bit_eq by (rule take_bit_eq_mod)
  then have le: "take_bit n x \<le> x" by (simp add: word_le_nat_alt)
  show ?thesis by (simp only: and_not_mask_eq unat_sub [OF le] take)
qed

text \<open>For a power of two the macro rounds up to the next multiple, as long as the addition
  does not wrap around.\<close>

lemma ALIGN_UP_unat:
  fixes v :: "'a::len word"
  assumes "n < LENGTH('a)" and "unat v + 2 ^ n \<le> 2 ^ LENGTH('a)"
  shows "unat (ALIGN_UP v (2 ^ n)) = (unat v + (2 ^ n - 1)) div 2 ^ n * 2 ^ n"
proof -
  have m: "(2 ^ n :: 'a word) - 1 = mask n" by (simp add: mask_eq_exp_minus_1)
  have "int (unat (mask n :: 'a word)) = int (2 ^ n - 1)"
    using assms(1) by (simp add: uint_mask_eq) (simp add: mask_eq_exp_minus_1)
  then have k: "unat (mask n :: 'a word) = 2 ^ n - 1" by (simp only: of_nat_eq_iff)
  have "0 < (2 :: nat) ^ n" by simp
  with assms(2) k have "unat v + unat (mask n :: 'a word) < 2 ^ LENGTH('a)" by linarith
  then have s: "unat (v + mask n) = unat v + (2 ^ n - 1)"
    by (simp only: unat_word_add_no_wrap k)
  have "ALIGN_UP v (2 ^ n) = (v + mask n) AND NOT (mask n)"
    unfolding ALIGN_UP_def by (simp add: add_diff_eq flip: m)
  then show ?thesis
    by (simp add: unat_and_not_mask s minus_mod_eq_div_mult)
qed

lemma align_up_nat_bounds:
  fixes v :: nat
  assumes "0 < d"
  shows "v \<le> (v + (d - 1)) div d * d" and "(v + (d - 1)) div d * d < v + d"
proof -
  have eq: "(v + (d - 1)) div d * d = v + (d - 1) - (v + (d - 1)) mod d"
    by (simp add: minus_mod_eq_div_mult)
  have "(v + (d - 1)) mod d \<le> d - 1"
    using mod_less_divisor [OF assms, of "v + (d - 1)"] by linarith
  then show "v \<le> (v + (d - 1)) div d * d" and "(v + (d - 1)) div d * d < v + d"
    using assms unfolding eq by linarith+
qed

section \<open>Procedures\<close>

text \<open>\<open>returns m Q\<close>: the procedure ends normally, and its value and final state satisfy
  \<open>Q\<close>.\<close>

definition returns :: "('a \<times> 's) option \<Rightarrow> ('a \<Rightarrow> 's \<Rightarrow> bool) \<Rightarrow> bool" where
  "returns m Q = (case m of None \<Rightarrow> False | Some (a, s) \<Rightarrow> Q a s)"

lemma returns_Some [simp]: "returns (Some (a, s)) Q = Q a s"
  by (simp add: returns_def)

lemma returns_None [simp]: "\<not> returns None Q"
  by (simp add: returns_def)

lemma returns_bind [simp]:
  "returns (m \<bind> f) Q = returns m (\<lambda>a s. returns (f (a, s)) Q)"
  by (simp add: returns_def split: Option.bind_split option.split prod.split)

lemma returns_if [simp]:
  "returns (if b then m else m') Q = (if b then returns m Q else returns m' Q)"
  by simp

lemma returns_mono [elim]:
  "returns m Q \<Longrightarrow> (\<And>a s. Q a s \<Longrightarrow> Q' a s) \<Longrightarrow> returns m Q'"
  by (simp add: returns_def split: option.splits prod.splits)

lemma returnsD: "returns m Q \<Longrightarrow> m = Some (a, s) \<Longrightarrow> Q a s"
  by simp

lemma returnsE:
  assumes "returns m Q"
  obtains a s where "m = Some (a, s)" and "Q a s"
  using assms by (auto simp: returns_def split: option.splits)

lemma returns_conj: "returns m Q \<Longrightarrow> returns m Q' \<Longrightarrow> returns m (\<lambda>a s. Q a s \<and> Q' a s)"
  by (simp add: returns_def split: option.splits prod.splits)

text \<open>\<open>ensures m Q\<close> is the partial-correctness judgement: if the procedure ends normally, then with \<open>Q\<close>.\<close>

definition ensures :: "('a \<times> 's) option \<Rightarrow> ('a \<Rightarrow> 's \<Rightarrow> bool) \<Rightarrow> bool" where
  "ensures m Q = (\<forall>a s. m = Some (a, s) \<longrightarrow> Q a s)"

lemma ensuresD: "ensures m Q \<Longrightarrow> m = Some (a, s) \<Longrightarrow> Q a s"
  by (simp add: ensures_def)

lemma ensuresI: "(\<And>a s. m = Some (a, s) \<Longrightarrow> Q a s) \<Longrightarrow> ensures m Q"
  by (simp add: ensures_def)

lemma ensures_Some [simp]: "ensures (Some (a, s)) Q = Q a s"
  by (simp add: ensures_def)

lemma ensures_bind:
  "ensures m P \<Longrightarrow> (\<And>a s. P a s \<Longrightarrow> ensures (f a s) Q) \<Longrightarrow> ensures (m \<bind> (\<lambda>(a, s). f a s)) Q"
  by (auto simp: ensures_def bind_eq_Some_conv)

lemma ensures_if: "(b \<Longrightarrow> ensures m Q) \<Longrightarrow> (\<not> b \<Longrightarrow> ensures m' Q) \<Longrightarrow> ensures (if b then m else m') Q"
  by simp

lemma ensures_mono: "ensures m Q \<Longrightarrow> (\<And>a s. Q a s \<Longrightarrow> Q' a s) \<Longrightarrow> ensures m Q'"
  by (simp add: ensures_def)

section \<open>Alignment\<close>

text \<open>C36. For a power of two, \<open>ALIGN_UP\<close>, computed with a mask, is the mathematical rounding: the least multiple that is not below the value, as long as
  the addition does not wrap around.\<close>

theorem ALIGN_UP_least_multiple:
  fixes v :: "'a::len word"
  assumes "n < LENGTH('a)" and "unat v + 2 ^ n \<le> 2 ^ LENGTH('a)"
  shows "2 ^ n dvd unat (ALIGN_UP v (2 ^ n)) \<and> unat v \<le> unat (ALIGN_UP v (2 ^ n)) \<and>
     (\<forall>m. 2 ^ n dvd m \<and> unat v \<le> m \<longrightarrow> unat (ALIGN_UP v (2 ^ n)) \<le> m)"
proof (intro conjI allI impI)
  let ?d = "2 ^ n :: nat"
  note eq = ALIGN_UP_unat [OF assms]
  show "?d dvd unat (ALIGN_UP v (2 ^ n))" unfolding eq by simp
  show "unat v \<le> unat (ALIGN_UP v (2 ^ n))" unfolding eq by (rule align_up_nat_bounds) simp
  fix m assume "?d dvd m \<and> unat v \<le> m"
  then obtain k where "m = k * ?d" "unat v \<le> k * ?d" by (auto elim!: dvdE simp: mult.commute)
  then have "(unat v + (?d - 1)) div ?d \<le> (k * ?d + (?d - 1)) div ?d" by (intro div_le_mono) simp
  also have "\<dots> = k + (?d - 1) div ?d" by (rule div_mult_self3) simp
  also have "\<dots> = k" by simp
  finally show "unat (ALIGN_UP v (2 ^ n)) \<le> m" unfolding eq \<open>m = k * ?d\<close> by simp
qed

theorem ALIGN_UP_least_multiple_witness: "unat (ALIGN_UP (0x1001 :: u64) 0x1000) = 0x2000"
proof -
  have a: "ALIGN_UP (0x1001 :: u64) (2 ^ 12) = ALIGN_UP 0x1001 0x1000" by simp
  from ALIGN_UP_least_multiple [of 12 "0x1001 :: u64", unfolded a]
  have d: "0x1000 dvd unat (ALIGN_UP (0x1001 :: u64) 0x1000)" and ge: "0x1001 \<le> unat (ALIGN_UP (0x1001 :: u64) 0x1000)"
    and le: "unat (ALIGN_UP (0x1001 :: u64) 0x1000) \<le> 0x2000" by simp_all
  from d obtain k where "unat (ALIGN_UP (0x1001 :: u64) 0x1000) = 0x1000 * k" ..
  with ge le show ?thesis by simp
qed

end
