(* ===== verification/CText.thy ===== *)
theory CText
  imports Prelude
begin

text \<open>
  The text functions of the C library that \<open>src/utils.c\<close> and \<open>src/cs-trace.c\<close> call: printing
  and scanning of integers, splitting a file into lines or tokens. Text is a \<open>string\<close>; a C string
  ends before its first null character (\<open>cstr\<close>). The main lemmas are the round trips: scanning
  what was printed gives the number back, and stops where the printed number stops.
\<close>

section \<open>Characters\<close>

definition isdigit :: "char \<Rightarrow> bool" where
  "isdigit c \<longleftrightarrow> c \<in> set ''0123456789''"

definition isspace :: "char \<Rightarrow> bool" where
  "isspace c \<longleftrightarrow> c \<in> {CHR '' '', CHR 0x09, CHR 0x0A, CHR 0x0B, CHR 0x0C, CHR 0x0D}"

fun index_of :: "'a \<Rightarrow> 'a list \<Rightarrow> nat" where
  "index_of x [] = 0"
| "index_of x (y # ys) = (if x = y then 0 else Suc (index_of x ys))"

text \<open>The value of a digit in any base up to 16; 16 for a character that is no digit.\<close>

definition digit_value :: "char \<Rightarrow> nat" where
  "digit_value c =
     (if c \<in> set ''ABCDEF'' then 10 + index_of c ''ABCDEF'' else index_of c ''0123456789abcdef'')"

definition digit_char :: "nat \<Rightarrow> char" where
  "digit_char d = ''0123456789abcdef'' ! d"

definition cstr :: "string \<Rightarrow> string" where
  "cstr = takeWhile (\<lambda>c. c \<noteq> CHR 0x00)"

section \<open>Printing\<close>

text \<open>The digits of a number, most significant first, as the conversions \<open>%d\<close>, \<open>%x\<close> print them.\<close>

fun print_nat :: "nat \<Rightarrow> nat \<Rightarrow> string" where
  "print_nat b n = (if b < 2 \<or> n < b then [digit_char n] else print_nat b (n div b) @ [digit_char (n mod b)])"

declare print_nat.simps [simp del]

definition print_int :: "int \<Rightarrow> string" where
  "print_int n = (if n < 0 then CHR ''-'' # print_nat 10 (nat (- n)) else print_nat 10 (nat n))"

definition PATH_MAX :: nat where "PATH_MAX = 4096"

text \<open>\<open>snprintf\<close> into an array of \<open>n\<close> characters keeps at most \<open>n - 1\<close> of them.\<close>

definition snprintf :: "nat \<Rightarrow> string \<Rightarrow> string" where
  "snprintf n t = take (n - 1) t"

section \<open>Scanning\<close>

definition digits_value :: "nat \<Rightarrow> string \<Rightarrow> nat" where
  "digits_value b = foldl (\<lambda>v c. v * b + digit_value c) 0"

definition in_base :: "nat \<Rightarrow> char \<Rightarrow> bool" where
  "in_base b c \<longleftrightarrow> digit_value c < b"

definition skip_space :: "string \<Rightarrow> string" where
  "skip_space = dropWhile isspace"

definition scan_sign :: "string \<Rightarrow> bool \<times> string" where
  "scan_sign s = (case s of [] \<Rightarrow> (False, [])
     | c # r \<Rightarrow> if c = CHR ''-'' then (True, r) else if c = CHR ''+'' then (False, r) else (False, s))"

text \<open>The optional prefix of base 16, taken when a digit follows.\<close>

definition skip_0x :: "string \<Rightarrow> string" where
  "skip_0x s = (case s of z # x # c # r \<Rightarrow>
       if z = CHR ''0'' \<and> x \<in> {CHR ''x'', CHR ''X''} \<and> in_base 16 c then c # r else s
     | _ \<Rightarrow> s)"

text \<open>An integer in base \<open>b\<close>: white space, sign, for base 16 a prefix, and at least one digit. The result
  is the mathematical value and the rest of the text.\<close>

definition scan_number :: "nat \<Rightarrow> string \<Rightarrow> (int \<times> string) option" where
  "scan_number b s =
     (let (neg, s) = scan_sign (skip_space s);
          s = (if b = 16 then skip_0x s else s);
          ds = takeWhile (in_base b) s
      in if ds = [] then None
         else Some ((if neg then - int (digits_value b ds) else int (digits_value b ds)), drop (length ds) s))"

text \<open>The conversion to \<open>unsigned long\<close> saturates; a minus sign negates modulo \<open>2 ^ 64\<close>. The conversion to
  \<open>long\<close> saturates at both ends.\<close>

definition to_ulong :: "int \<Rightarrow> u64" where
  "to_ulong v = (if \<bar>v\<bar> < 2 ^ 64 then word_of_int v else -1)"

definition to_long :: "int \<Rightarrow> int" where
  "to_long v = (if v < - (2 ^ 63) then - (2 ^ 63) else if v > 2 ^ 63 - 1 then 2 ^ 63 - 1 else v)"

definition scan_lx :: "string \<Rightarrow> (u64 \<times> string) option" where
  "scan_lx s = map_option (\<lambda>(v, r). (to_ulong v, r)) (scan_number 16 s)"

definition scan_ld :: "string \<Rightarrow> (int \<times> string) option" where
  "scan_ld s = map_option (\<lambda>(v, r). (to_long v, r)) (scan_number 10 s)"

text \<open>\<open>%u\<close> reads an \<open>unsigned long\<close> and keeps its low 32 bits.\<close>

definition scan_u :: "string \<Rightarrow> (u32 \<times> string) option" where
  "scan_u s = map_option (\<lambda>(v, r). (ucast (to_ulong v), r)) (scan_number 10 s)"

text \<open>\<open>strtol\<close> with base 0 chooses the base by the prefix, and gives 0 when there is no number.\<close>

definition strtol0 :: "string \<Rightarrow> int" where
  "strtol0 s =
     (let r = snd (scan_sign (skip_space s));
          b = (if skip_0x r \<noteq> r then 16 else if take 1 r = ''0'' then 8 else 10)
      in case scan_number b s of None \<Rightarrow> 0 | Some (v, _) \<Rightarrow> to_long v)"

section \<open>Lines and tokens\<close>

text \<open>The successive results of \<open>getdelim\<close>: each piece includes its delimiter, the last one may lack it.\<close>

fun getdelims :: "char \<Rightarrow> string \<Rightarrow> string list" where
  "getdelims d [] = []"
| "getdelims d (c # s) =
     (if c = d then [c] # getdelims d s
      else case getdelims d s of [] \<Rightarrow> [[c]]
        | p # ps \<Rightarrow> (c # p) # ps)"

text \<open>The successive results of \<open>fgets\<close> with a buffer of \<open>n + 2\<close> characters: at most \<open>n + 1\<close> characters,
  not beyond the end of a line.\<close>

fun chunks :: "nat \<Rightarrow> 'a list \<Rightarrow> 'a list list" where
  "chunks n [] = []"
| "chunks n (c # s) = (c # take n s) # chunks n (drop n s)"

definition fgets_all :: "nat \<Rightarrow> string \<Rightarrow> string list" where
  "fgets_all n s = concat (map (chunks n) (getdelims (CHR 0x0A) s))"

text \<open>What a loop reads from a stream; nothing if it cannot be read.\<close>

definition stream_text :: "string option \<Rightarrow> string" where
  "stream_text t = (case t of None \<Rightarrow> [] | Some t \<Rightarrow> t)"

definition strip_newline :: "string \<Rightarrow> string" where
  "strip_newline l = (if l \<noteq> [] \<and> last l = CHR 0x0A then butlast l else l)"

definition strchr :: "string \<Rightarrow> char \<Rightarrow> string option" where
  "strchr s c = (let r = dropWhile (\<lambda>x. x \<noteq> c) s in if r = [] then None else Some r)"

section \<open>Round trips\<close>

lemma digit_char_table:
  "\<forall>d \<in> set [0..<16]. digit_value (digit_char d) = d \<and> \<not> isspace (digit_char d) \<and>
     digit_char d \<notin> set ''-+xX,/'' \<and> digit_char d \<noteq> CHR 0x00 \<and> digit_char d \<noteq> CHR 0x0A"
  by code_simp

lemma isdigit_table: "\<forall>d \<in> set [0..<10]. isdigit (digit_char d)"
  by code_simp

lemma digit_char_plain [simp]:
  assumes "d < 16"
  shows "digit_value (digit_char d) = d"
    and "\<not> isspace (digit_char d)" and "digit_char d \<noteq> CHR ''-''" and "digit_char d \<noteq> CHR ''+''"
    and "digit_char d \<noteq> CHR ''x''" and "digit_char d \<noteq> CHR ''X''" and "digit_char d \<noteq> CHR 0x00"
    and "digit_char d \<noteq> CHR 0x0A" and "digit_char d \<noteq> CHR '',''" and "digit_char d \<noteq> CHR ''/''"
  using digit_char_table assms by auto

lemma isdigit_digit_char: "d < 10 \<Longrightarrow> isdigit (digit_char d)"
  using isdigit_table by simp

text \<open>A printed number is a non-empty list of digit characters with the right value.\<close>

lemma print_nat_digits:
  assumes "2 \<le> b" and "b \<le> 16"
  shows "\<exists>ds. ds \<noteq> [] \<and> print_nat b n = map digit_char ds \<and> (\<forall>d \<in> set ds. d < b) \<and>
    digits_value b (print_nat b n) = n"
proof (induction n rule: less_induct)
  case (less n)
  show ?case
  proof (cases "n < b")
    case True
    then show ?thesis using assms
      by (intro exI [of _ "[n]"]) (simp add: print_nat.simps digits_value_def)
  next
    case False
    with assms have "n div b < n" by (intro div_less_dividend) simp_all
    from less.IH [OF this] obtain ds where ds: "print_nat b (n div b) = map digit_char ds"
      "\<forall>d \<in> set ds. d < b" "digits_value b (print_nat b (n div b)) = n div b"
      by blast
    have "n mod b < b" using assms by simp
    moreover from this have "digit_value (digit_char (n mod b)) = n mod b"
      using assms(2) by (intro digit_char_plain(1)) linarith
    ultimately show ?thesis using False assms ds
      by (subst (1 2) print_nat.simps) (intro exI [of _ "ds @ [n mod b]"], auto simp: digits_value_def)
  qed
qed

text \<open>A text that cannot continue a number.\<close>

definition stops :: "nat \<Rightarrow> string \<Rightarrow> bool" where
  "stops b r = (case r of [] \<Rightarrow> True | c # _ \<Rightarrow> \<not> in_base b c \<and> c \<noteq> CHR ''x'' \<and> c \<noteq> CHR ''X'')"

lemma takeWhile_stops:
  assumes "\<forall>d \<in> set ds. d < b" and "b \<le> 16" and "stops b r"
  shows "takeWhile (in_base b) (map digit_char ds @ r) = map digit_char ds"
proof -
  have "in_base b c" if "c \<in> set (map digit_char ds)" for c
    using that assms(1,2) by (force simp: in_base_def)
  moreover have "takeWhile (in_base b) r = []"
    using assms(3) by (simp add: stops_def split: list.splits)
  ultimately show ?thesis by (simp add: takeWhile_append)
qed

lemma skip_0x_digits:
  assumes "ds \<noteq> []" and "\<forall>d \<in> set ds. d < 16" and "stops 16 r"
  shows "skip_0x (map digit_char ds @ r) = map digit_char ds @ r"
proof (cases ds)
  case (Cons d es)
  then show ?thesis
    using assms by (cases es; cases r) (auto simp: skip_0x_def stops_def split: list.split)
qed (use assms in simp)

lemma scan_number_digits:
  assumes "ds \<noteq> []" and "\<forall>d \<in> set ds. d < b" and "b \<le> 16" and "stops b r"
  shows "scan_number b (map digit_char ds @ r) = Some (int (digits_value b (map digit_char ds)), r)"
proof -
  obtain d es where ds: "ds = d # es" using assms(1) by (cases ds) auto
  have d: "d < 16" using assms(2,3) ds by auto
  have "scan_sign (skip_space (map digit_char ds @ r)) = (False, map digit_char ds @ r)"
    using d by (simp add: ds skip_space_def scan_sign_def)
  moreover have "(if b = 16 then skip_0x (map digit_char ds @ r) else map digit_char ds @ r) = map digit_char ds @ r"
    using skip_0x_digits [of ds r] assms by auto
  ultimately show ?thesis
    using takeWhile_stops [OF assms(2,3,4)] assms(1) by (simp add: scan_number_def Let_def)
qed

lemma scan_number_print_nat:
  assumes "2 \<le> b" and "b \<le> 16" and "stops b r"
  shows "scan_number b (print_nat b n @ r) = Some (int n, r)"
proof -
  obtain ds where "ds \<noteq> []" "print_nat b n = map digit_char ds" "\<forall>d \<in> set ds. d < b"
    "digits_value b (print_nat b n) = n"
    using print_nat_digits [OF assms(1,2)] by blast
  with scan_number_digits [of ds b r] assms show ?thesis by simp
qed

lemma scan_lx_print:
  "n < 2 ^ 64 \<Longrightarrow> stops 16 r \<Longrightarrow> scan_lx (print_nat 16 n @ r) = Some (of_nat n, r)"
  by (simp add: scan_lx_def scan_number_print_nat to_ulong_def)

lemma scan_lx_print_word:
  "stops 16 r \<Longrightarrow> scan_lx (print_nat 16 (unat (w :: u64)) @ r) = Some (w, r)"
  using scan_lx_print [of "unat w" r] unsigned_less [of w, where 'a = nat] by simp

lemma scan_ld_print:
  "n < 2 ^ 63 \<Longrightarrow> stops 10 r \<Longrightarrow> scan_ld (print_nat 10 n @ r) = Some (int n, r)"
  by (simp add: scan_ld_def scan_number_print_nat to_long_def)

lemma ucast_of_nat_u32: "(ucast (of_nat n :: u64) :: u32) = of_nat n"
  by (rule bit_eqI) (auto simp: bit_simps)

lemma scan_u_print:
  "n < 2 ^ 32 \<Longrightarrow> stops 10 r \<Longrightarrow> scan_u (print_nat 10 n @ r) = Some (of_nat n, r)"
  by (simp add: scan_u_def scan_number_print_nat to_ulong_def ucast_of_nat_u32)

lemma scan_number_space [simp]: "isspace c \<Longrightarrow> scan_number b (c # s) = scan_number b s"
  by (simp add: scan_number_def skip_space_def)

lemma scan_lx_space [simp]: "isspace c \<Longrightarrow> scan_lx (c # s) = scan_lx s"
  by (simp add: scan_lx_def)

lemma length_print_nat: "2 \<le> b \<Longrightarrow> n < b ^ k \<Longrightarrow> 0 < k \<Longrightarrow> length (print_nat b n) \<le> k"
proof (induction k arbitrary: n)
  case (Suc k)
  show ?case
  proof (cases "n < b")
    case False
    with Suc.prems have "k \<noteq> 0" by (auto intro: ccontr)
    moreover have "n div b < b ^ k" using Suc.prems by (simp add: div_less_iff_less_mult mult.commute)
    ultimately show ?thesis
      using Suc.IH [of "n div b"] Suc.prems False by (subst print_nat.simps) simp
  qed (simp add: print_nat.simps)
qed simp

end
