(* ===== verification/Environment.thy ===== *)
theory Environment
  imports Prelude
begin

text \<open>
  The boundary of the program: the CSAL library (a git submodule whose sources are not part of
  the repository) and the Linux system interface. Both are parameters. A procedure of the program
  acts on them by calls, values of the type \<open>call\<close>; the calls made so far are kept, in order, in
  the field \<open>hist\<close> of the state, and what a call answers is asked from an environment
  \<open>E\<close>, which may depend on the whole history: hidden state of the hardware, of the library or
  of the kernel is a function of the calls made before. Constants and macros of the CSAL headers
  are fields of \<open>E\<close> too, so every theorem holds for all their values.

  The second part is a small calculus of \<open>scripts\<close>, straight-line sequences of calls whose
  answers are checked and which stop at the first failure: the abstract specification that the
  enabling and disabling procedures are shown to refine.
\<close>

section \<open>Data shared with CSAL\<close>

text \<open>An opaque device descriptor (\<open>cs_device_t\<close>), with the null pointer as 0.\<close>

type_synonym cs_device = u64

text \<open>The fields of \<open>struct cs_devices_t\<close> that the program uses. Arrays are functions of the
  index; the program's object is static, hence initially zero everywhere.\<close>

record cs_devices =
  etb :: cs_device
  tpiu :: cs_device
  itm :: cs_device
  tsgen :: cs_device
  ptm :: "nat \<Rightarrow> cs_device"
  trace_sinks :: "nat \<Rightarrow> cs_device"
  num_trace_sinks :: nat
  cpu_id :: "nat \<Rightarrow> u32"

definition zero_devices :: cs_devices where
  "zero_devices = \<lparr>etb = 0, tpiu = 0, itm = 0, tsgen = 0, ptm = (\<lambda>_. 0), trace_sinks = (\<lambda>_. 0),
     num_trace_sinks = 0, cpu_id = (\<lambda>_. 0)\<rparr>"

text \<open>The fields of \<open>struct board\<close> that the program uses.\<close>

record board_t =
  hardware :: string
  n_cpu :: nat
  etr_axictl :: u32

text \<open>The ETMv4 configuration structure: address comparators, context id comparators, and the
  registers that \<open>config.c\<close> reads or writes.\<close>

record adrcmp =
  acvr_l :: u32
  acvr_h :: u32
  acatr_l :: u32

record cxidcmp =
  cidcvr_l :: u32
  cidcvr_h :: u32

record etmv4_config =
  flags :: u32
  idr2_vmidsize :: u32
  idr2_cidsize :: u32
  configr_vmid :: u32
  configr_cid :: u32
  configr_rs :: u32
  configr_bb :: u32
  configr_cci :: u32
  victlr :: u32
  viiectlr :: u32
  vissctlr :: u32
  eventctlr0r :: u32
  eventctlr1r :: u32
  stallcrlr :: u32
  syncpr :: u32
  cidcctlr0 :: u32
  cxid_comps :: "nat \<Rightarrow> cxidcmp"
  cxid_comps_acc_mask :: u32
  addr_comps :: "nat \<Rightarrow> adrcmp"
  addr_comps_acc_mask :: u32

section \<open>Calls\<close>

text \<open>The trigger signals of the devices that are wired to a cross trigger interface.\<close>

datatype cs_trigger =
    CS_TRIGOUT_ETB_FULL
  | CS_TRIGOUT_ETB_ACQCOMP
  | CS_TRIGIN_ETB_FLUSHIN
  | CS_TRIGIN_ETB_TRIGIN
  | CS_TRIGOUT_STM_TRIGOUTSPTE
  | CS_TRIGOUT_STM_TRIGOUTSW
  | CS_TRIGOUT_STM_TRIGOUTHETE
  | CS_TRIGOUT_STM_ASYNCOUT

datatype (plugins only: code) cs_call =
    Cs_disable_tpiu
  | Cs_sink_is_enabled cs_device
  | Cs_sink_enable cs_device
  | Cs_sink_disable cs_device
  | Cs_sink_etr_setup cs_device u64 u64 u32
  | Cs_sink_etf_setup cs_device u32
  | Cs_tmc_hw_fifo_enable cs_device u32
  | Cs_device_read cs_device u32
  | Cs_device_write cs_device u32 u32
  | Cs_device_wait cs_device u32 u32
  | Cs_device_has_class cs_device
  | Cs_cpu_get_device nat
  | Cs_set_trace_source_id cs_device int
  | Cs_etm_get_version cs_device
  | Cs_etm_clean cs_device
  | Cs_etm_config_init_ex cs_device
  | Cs_etm_config_get_ex cs_device etmv4_config
  | Cs_etm_config_put_ex cs_device etmv4_config
  | Cs_trace_enable cs_device
  | Cs_trace_disable cs_device
  | Cs_trace_swstim_enable_all_ports cs_device
  | Cs_trace_swstim_set_sync_repeat cs_device int
  | Cs_checkpoint
  | Cs_cti_diag
  | Cs_error_count
  | Cs_reset_error_count
  | Cs_shutdown
  | Do_dump_config
  | Setup_named_board string
  | Cs_get_buffer_rwp cs_device
  | Cs_get_buffer_size_bytes cs_device
  | Cs_get_buffer_unread_bytes cs_device
  | Cs_get_trace_data cs_device u64 u64
  | Cs_empty_trace_buffer cs_device
  | Cs_exclude_range u64 u64
  | Cs_register_romtable u64
  | Cs_device_register u64
  | Cs_device_get u64
  | Cs_device_set_affinity cs_device nat
  | Cs_stm_config_master cs_device nat u64
  | Cs_stm_select_master cs_device nat
  | Cs_atb_register cs_device nat cs_device nat
  | Cs_atb_add_replicator nat
  | Cs_cti_trigsrc cs_device nat
  | Cs_cti_trigdst cs_device nat
  | Cs_cti_connect_trigsrc cs_device cs_trigger u64
  | Cs_cti_connect_trigdst u64 cs_device cs_trigger

datatype sig = SIGSTOP | SIGCONT | SIG0

datatype (plugins only: code) os_call =
    Mmap u64
  | Mremap u64 u64 u64
  | Munmap u64 u64
  | Getcwd
  | Fopen string string
  | Fwrite int "u8 list"
  | Fclose int
  | Fputs_stderr string
  | Open string
  | Stat_isdir string
  | Read int u64
  | Write int string
  | Close int
  | Kill int sig
  | Usleep nat
  | Nanosleep nat
  | Pthread_create
  | Pthread_join
  | Get_nprocs
  | Sysconf_nprocs
  | Cpu_alloc nat
  | Sched_setaffinity int "nat set"
  | Sched_getaffinity int
  | Opendir string
  | Closedir string
  | Read_text string
  | Mmap_file int u64 u64
  | Waitpid int
  | Ptrace_detach int
  | Fork
  | Ptrace_traceme
  | Access string bool
  | Execvpe "string list"
  | Wait

text \<open>A wait status: exit with a code, death by a signal, continuation, or a stop with the stop signal.\<close>

datatype stop_sig = Stop_SIGSTOP | Stop_SIGCONT | Stop_SIGTRAP | Stop_other

datatype wait_status = Exited int | Signaled | Continued | Stopped stop_sig

datatype call = CS cs_call | OS os_call

section \<open>The environment\<close>

text \<open>Answers are sorted by C type. \<open>a_int\<close> answers the calls with an \<open>int\<close> result (and
  stands for the ignored result of \<open>void\<close> calls), \<open>a_u32\<close> register reads, \<open>a_u64\<close>
  addresses and sizes, \<open>a_dev\<close> descriptors, \<open>a_cfg\<close> the configuration structure that a
  call fills in, \<open>a_bytes\<close> data that a call copies out, \<open>a_text\<close> the contents of a
  text file, \<open>a_dir\<close> the names in a directory, \<open>a_cpus\<close> an affinity set,
  \<open>a_errno\<close> the value of \<open>errno\<close> after the calls made so far,
  \<open>a_wait\<close> the status that \<open>waitpid\<close> leaves, and \<open>a_board\<close> what \<open>setup_named_board\<close> stores through its arguments.\<close>

record env =
  a_int :: "call list \<Rightarrow> call \<Rightarrow> int"
  a_u32 :: "call list \<Rightarrow> call \<Rightarrow> u32"
  a_u64 :: "call list \<Rightarrow> call \<Rightarrow> u64"
  a_dev :: "call list \<Rightarrow> call \<Rightarrow> cs_device"
  a_cfg :: "call list \<Rightarrow> call \<Rightarrow> etmv4_config"
  a_bytes :: "call list \<Rightarrow> call \<Rightarrow> int \<times> u8 list"
  a_text :: "call list \<Rightarrow> call \<Rightarrow> string option"
  a_dir :: "call list \<Rightarrow> call \<Rightarrow> string list option"
  a_cpus :: "call list \<Rightarrow> call \<Rightarrow> nat set option"
  a_errno :: "call list \<Rightarrow> int"
  a_wait :: "call list \<Rightarrow> call \<Rightarrow> wait_status"
  a_board :: "call list \<Rightarrow> call \<Rightarrow> int \<times> board_t option \<times> cs_devices"
  CS_ERRDESC :: cs_device
  CS_ETB_FLFMT_CTRL :: u32
  CS_ETB_FLFMT_CTRL_FOnMan :: u32
  CS_ETB_FLFMT_CTRL_StopFl :: u32
  CS_ETB_STATUS :: u32
  CS_ETB_STATUS_FtEmpty :: u32
  CS_ETMC_TRACE_ENABLE :: u32
  CS_ETMC_CONFIG :: u32
  CS_ETMC_EVENTSELECT :: u32
  CS_ETMC_CXID_COMP :: u32
  CS_ETMC_ADDR_COMP :: u32
  CS_ETMV4_ACATR_ExEL0_S :: u32
  CS_ETMV4_ACATR_ExEL1_S :: u32
  CS_ETMV4_ACATR_ExEL2_S :: u32
  CS_ETMV4_ACATR_ExEL1_NS :: u32
  CS_ETMV4_ACATR_ExEL2_NS :: u32
  CS_TMC_MODE_HWFIFO :: u32
  CS_ETMVERSION_MAJOR :: "int \<Rightarrow> int"
  CS_ETMVERSION_ETMv4 :: int
  CS_ETMVERSION_IS_ETMV4 :: "int \<Rightarrow> bool"

record world =
  hist :: "call list"

text \<open>One call: the answer, and the state with the call recorded.\<close>

definition ask ::
  "(call list \<Rightarrow> call \<Rightarrow> 'a) \<Rightarrow> call \<Rightarrow> 'z world_scheme \<Rightarrow> ('a \<times> 'z world_scheme) option" where
  "ask f c s = Some (f (hist s) c, s\<lparr>hist := hist s @ [c]\<rparr>)"

definition cs_int :: "env \<Rightarrow> cs_call \<Rightarrow> 'z world_scheme \<Rightarrow> (int \<times> 'z world_scheme) option" where
  "cs_int E c = ask (a_int E) (CS c)"

definition os_int :: "env \<Rightarrow> os_call \<Rightarrow> 'z world_scheme \<Rightarrow> (int \<times> 'z world_scheme) option" where
  "os_int E c = ask (a_int E) (OS c)"

lemmas ask_defs = ask_def cs_int_def os_int_def

text \<open>\<open>appends s m\<close>: if the procedure \<open>m\<close>, started in \<open>s\<close>, ends normally, it has made some
  more calls and changed nothing else. The rules below prove it by following the shape of the
  procedure.\<close>

definition appends :: "'z world_scheme \<Rightarrow> ('a \<times> 'z world_scheme) option \<Rightarrow> bool" where
  "appends s m = (\<forall>r s'. m = Some (r, s') \<longrightarrow> (\<exists>cs. s' = s\<lparr>hist := hist s @ cs\<rparr>))"

lemma appendsI: "(\<And>r s'. m = Some (r, s') \<Longrightarrow> \<exists>cs. s' = s\<lparr>hist := hist s @ cs\<rparr>) \<Longrightarrow> appends s m"
  by (simp add: appends_def)

lemma appendsE:
  assumes "appends s m" and "m = Some (r, s')"
  obtains cs where "s' = s\<lparr>hist := hist s @ cs\<rparr>"
  using assms by (auto simp: appends_def)

lemma appends_Some: "appends s (Some (r, s))"
  by (auto simp: appends_def intro: exI [of _ "[]"])

lemma appends_None: "appends s None"
  by (simp add: appends_def)

lemma appends_ask: "appends s (ask f c s)"
  by (auto simp: appends_def ask_def)

lemma appends_bind:
  assumes "appends s m" and "\<And>r s'. m = Some (r, s') \<Longrightarrow> appends s' (f r s')"
  shows "appends s (m \<bind> (\<lambda>(r, s'). f r s'))"
proof (rule appendsI)
  fix r s'' assume "m \<bind> (\<lambda>(r, s'). f r s') = Some (r, s'')"
  then obtain a s' where m: "m = Some (a, s')" and f: "f a s' = Some (r, s'')"
    by (auto simp: bind_eq_Some_conv)
  from appendsE [OF assms(1) m] obtain cs where s': "s' = s\<lparr>hist := hist s @ cs\<rparr>" .
  from appendsE [OF assms(2) [OF m] f] obtain cs' where "s'' = s'\<lparr>hist := hist s' @ cs'\<rparr>" .
  with s' show "\<exists>cs. s'' = s\<lparr>hist := hist s @ cs\<rparr>" by (intro exI [of _ "cs @ cs'"]) simp
qed

lemma appends_prod: "(\<And>a b. appends s (f a b s')) \<Longrightarrow> appends s ((case p of (a, b) \<Rightarrow> f a b) s')"
  by (cases p) simp

lemma appends_Let: "appends s (f x) \<Longrightarrow> appends s (Let x f)"
  by simp

lemma appends_option:
  "(x = None \<Longrightarrow> appends s m) \<Longrightarrow> (\<And>a. x = Some a \<Longrightarrow> appends s (f a)) \<Longrightarrow>
   appends s (case x of None \<Rightarrow> m | Some a \<Rightarrow> f a)"
  by (cases x) auto

lemma appends_if: "(b \<Longrightarrow> appends s m) \<Longrightarrow> (\<not> b \<Longrightarrow> appends s m') \<Longrightarrow> appends s (if b then m else m')"
  by simp

lemma appends_cs_int: "appends s (cs_int E c s)"
  by (simp add: cs_int_def appends_ask)

lemma appends_os_int: "appends s (os_int E c s)"
  by (simp add: os_int_def appends_ask)

lemmas appends_rules =
  appends_Some appends_None appends_ask appends_cs_int appends_os_int appends_bind appends_if
  appends_prod appends_Let appends_option

section \<open>Scripts\<close>

text \<open>A script is a list of calls, each with the test that its \<open>int\<close> answer has to pass for
  the script to go on.\<close>

type_synonym script = "(call \<times> (int \<Rightarrow> bool)) list"

fun run_script :: "env \<Rightarrow> script \<Rightarrow> call list \<Rightarrow> bool \<times> call list" where
  "run_script E [] h = (True, h)"
| "run_script E ((c, p) # cs) h =
     (if p (a_int E h c) then run_script E cs (h @ [c]) else (False, h @ [c]))"

definition is_zero :: "int \<Rightarrow> bool" where "is_zero r = (r = 0)"
definition not_neg :: "int \<Rightarrow> bool" where "not_neg r = (\<not> r < 0)"
definition no_errors :: "int \<Rightarrow> bool" where "no_errors r = (\<not> r > 0)"
definition any_result :: "int \<Rightarrow> bool" where "any_result r = True"

lemmas check_defs = is_zero_def not_neg_def no_errors_def any_result_def

lemma check_ifs:
  "(if is_zero r then x else y) = (if r \<noteq> 0 then y else x)"
  "(if not_neg r then x else y) = (if r < 0 then y else x)"
  "(if no_errors r then x else y) = (if r > 0 then y else x)"
  "(if any_result r then x else y) = x"
  by (simp_all add: check_defs)

lemma run_script_append:
  "run_script E (cs @ ds) h =
     (case run_script E cs h of (ok, h') \<Rightarrow> if ok then run_script E ds h' else (False, h'))"
  by (induction cs arbitrary: h) (auto split: prod.splits)

lemma run_script_after:
  "run_script E cs h = (True, h') \<Longrightarrow> run_script E (cs @ ds) h = run_script E ds h'"
  by (simp add: run_script_append)

text \<open>A script that succeeds has made all its calls, in order; one that fails has made a
  non-empty initial part of them and nothing else.\<close>

lemma run_script_success:
  "run_script E cs h = (True, h') \<Longrightarrow> h' = h @ map fst cs"
  by (induction E cs h rule: run_script.induct) (auto split: if_splits)

lemma run_script_failure:
  assumes "run_script E cs h = (False, h')"
  shows "\<exists>n < length cs. h' = h @ map fst (take (Suc n) cs) \<and>
           \<not> snd (cs ! n) (a_int E (h @ map fst (take n cs)) (fst (cs ! n)))"
  using assms
proof (induction cs arbitrary: h)
  case Nil
  then show ?case by simp
next
  case (Cons x xs)
  obtain c p where x: "x = (c, p)" by (cases x)
  show ?case
  proof (cases "p (a_int E h c)")
    case True
    with Cons.prems x have "run_script E xs (h @ [c]) = (False, h')" by simp
    from Cons.IH [OF this] obtain n where "n < length xs"
      and "h' = (h @ [c]) @ map fst (take (Suc n) xs)"
      and "\<not> snd (xs ! n) (a_int E ((h @ [c]) @ map fst (take n xs)) (fst (xs ! n)))"
      by blast
    with x show ?thesis by (intro exI [of _ "Suc n"]) simp
  next
    case False
    with Cons.prems x show ?thesis by (intro exI [of _ 0]) simp
  qed
qed

lemma run_script_extends: "\<exists>cs'. snd (run_script E cs h) = h @ cs' \<and> prefix cs' (map fst cs)"
proof (induction E cs h rule: run_script.induct)
  case (1 E h)
  then show ?case by simp
next
  case (2 E c p cs h)
  show ?case
  proof (cases "p (a_int E h c)")
    case True
    with 2 obtain cs' where "snd (run_script E cs (h @ [c])) = (h @ [c]) @ cs'"
      and "prefix cs' (map fst cs)"
      by blast
    with True show ?thesis by (intro exI [of _ "c # cs'"]) simp
  next
    case False
    then show ?thesis by (intro exI [of _ "[c]"]) simp
  qed
qed

lemma run_script_all_pass:
  "\<forall>(c, p) \<in> set cs. \<forall>h. p (a_int E h c) \<Longrightarrow> run_script E cs h = (True, h @ map fst cs)"
  by (induction E cs h rule: run_script.induct) auto

text \<open>A script as a procedure: 0 if every check passed, \<open>-1\<close> otherwise. These equations turn
  the C shape, a call followed by a test and an early return, into scripts.\<close>

definition script_result :: "env \<Rightarrow> script \<Rightarrow> 'z world_scheme \<Rightarrow> (int \<times> 'z world_scheme) option" where
  "script_result E cs s =
     (case run_script E cs (hist s) of (ok, h) \<Rightarrow> Some (if ok then 0 else -1, s\<lparr>hist := h\<rparr>))"

lemma script_result_Nil: "script_result E [] s = Some (0, s)"
  by (simp add: script_result_def)

lemma script_result_Cons:
  "script_result E ((CS c, p) # cs) s =
     do { (r, s) \<leftarrow> cs_int E c s; if p r then script_result E cs s else Some (-1, s) }"
  by (simp add: script_result_def ask_defs)

lemma script_result_append:
  "script_result E (cs @ ds) s =
     do { (r, s) \<leftarrow> script_result E cs s; if r \<noteq> 0 then Some (-1, s) else script_result E ds s }"
  by (simp add: script_result_def run_script_append split: prod.splits)

lemmas script_result_simps = script_result_Nil script_result_Cons script_result_append

lemma script_result_cases:
  obtains s' where "script_result E cs s = Some (0, s')" and "hist s' = hist s @ map fst cs"
    and "s' = s\<lparr>hist := hist s @ map fst cs\<rparr>"
  | n s' where "script_result E cs s = Some (-1, s')" and "n < length cs"
    and "s' = s\<lparr>hist := hist s @ map fst (take (Suc n) cs)\<rparr>"
    and "\<not> snd (cs ! n) (a_int E (hist s @ map fst (take n cs)) (fst (cs ! n)))"
proof (cases "run_script E cs (hist s)")
  case (Pair ok h)
  show ?thesis
  proof (cases ok)
    case True
    with Pair run_script_success [of E cs "hist s" h] show ?thesis
      by (intro that(1)) (simp_all add: script_result_def)
  next
    case False
    with Pair run_script_failure [of E cs "hist s" h] show ?thesis
      by (auto simp: script_result_def intro: that(2))
  qed
qed

lemma appends_script_result: "appends s (script_result E cs s)"
proof (rule appendsI)
  fix r s' assume "script_result E cs s = Some (r, s')"
  with run_script_extends [of E cs "hist s"] show "\<exists>cs. s' = s\<lparr>hist := hist s @ cs\<rparr>"
    by (auto simp: script_result_def split: prod.splits)
qed

section \<open>The contract of an operation on the trace hardware\<close>

text \<open>The operations of \<open>config.c\<close> that \<open>common.c\<close> calls share a contract: they make calls and
  change nothing else in the program's state, and their result is the C convention 0 or
  \<open>-1\<close>. The second locale adds that the process survives.\<close>

locale csal_operation =
  fixes op :: "env \<Rightarrow> 'z world_scheme \<Rightarrow> (int \<times> 'z world_scheme) option"
  assumes op_appends: "appends s (op E s)"
    and op_code: "op E s = Some (r, s') \<Longrightarrow> r = 0 \<or> r = -1"
begin

lemma op_frame:
  assumes "op E s = Some (r, s')"
  shows "\<exists>cs. hist s' = hist s @ cs" and "world.more s' = world.more s"
  using appendsE [OF op_appends assms] by (metis world.select_convs(1) world.surjective
      world.update_convs(1), metis world.select_convs(2) world.surjective world.update_convs(1))

lemma op_failed_iff: "op E s = Some (r, s') \<Longrightarrow> r < 0 \<longleftrightarrow> r = -1"
  using op_code by force

end

locale csal_total_operation = csal_operation +
  assumes op_total: "op E s \<noteq> None"
begin

lemma op_returns: "returns (op E s) (\<lambda>r s'. r = 0 \<or> r = -1)"
  using op_total [of E s] op_code [of E s] by (auto simp: returns_def split: option.split)

end

section \<open>A sample environment\<close>

text \<open>A concrete environment, used to exhibit runs: four ETMv4 sources, every operation succeeds,
  registers read as zero, no errors are counted.\<close>

definition zero_config :: etmv4_config where
  "zero_config = \<lparr>flags = 0, idr2_vmidsize = 0, idr2_cidsize = 4, configr_vmid = 0, configr_cid = 0,
     configr_rs = 0, configr_bb = 0, configr_cci = 0, victlr = 0, viiectlr = 0, vissctlr = 0,
     eventctlr0r = 0, eventctlr1r = 0, stallcrlr = 0, syncpr = 0, cidcctlr0 = 0,
     cxid_comps = (\<lambda>_. \<lparr>cidcvr_l = 0, cidcvr_h = 0\<rparr>), cxid_comps_acc_mask = 0,
     addr_comps = (\<lambda>_. \<lparr>acvr_l = 0, acvr_h = 0, acatr_l = 0\<rparr>), addr_comps_acc_mask = 0\<rparr>"

definition sample_int :: "call list \<Rightarrow> call \<Rightarrow> int" where
  "sample_int h c = (case c of
       CS (Cs_device_has_class _) \<Rightarrow> 1
     | CS (Cs_sink_is_enabled _) \<Rightarrow> 1
     | CS (Cs_etm_get_version _) \<Rightarrow> 4
     | _ \<Rightarrow> 0)"

definition sample_dev :: "call list \<Rightarrow> call \<Rightarrow> cs_device" where
  "sample_dev h c = (case c of CS (Cs_cpu_get_device i) \<Rightarrow> 0x100 + of_nat i | _ \<Rightarrow> 0)"

definition sample_env :: env where
  "sample_env = \<lparr>a_int = sample_int, a_u32 = (\<lambda>_ _. 0), a_u64 = (\<lambda>_ _. 0x10000), a_dev = sample_dev,
     a_cfg = (\<lambda>_ _. zero_config), a_bytes = (\<lambda>_ _. (0, [])), a_text = (\<lambda>_ _. None),
     a_dir = (\<lambda>_ _. None), a_cpus = (\<lambda>_ _. None), a_errno = (\<lambda>_. 0), a_wait = (\<lambda>_ _. Exited 0), a_board = (\<lambda>_ _. (-1, None, zero_devices)),
     CS_ERRDESC = 0, CS_ETB_FLFMT_CTRL = 0x304, CS_ETB_FLFMT_CTRL_FOnMan = 0x40,
     CS_ETB_FLFMT_CTRL_StopFl = 0x1000, CS_ETB_STATUS = 0x0C, CS_ETB_STATUS_FtEmpty = 8,
     CS_ETMC_TRACE_ENABLE = 1, CS_ETMC_CONFIG = 2, CS_ETMC_EVENTSELECT = 4, CS_ETMC_CXID_COMP = 8,
     CS_ETMC_ADDR_COMP = 16, CS_ETMV4_ACATR_ExEL0_S = 0x100, CS_ETMV4_ACATR_ExEL1_S = 0x200,
     CS_ETMV4_ACATR_ExEL2_S = 0x400, CS_ETMV4_ACATR_ExEL1_NS = 0x2000,
     CS_ETMV4_ACATR_ExEL2_NS = 0x4000, CS_TMC_MODE_HWFIFO = 2, CS_ETMVERSION_MAJOR = id,
     CS_ETMVERSION_ETMv4 = 4, CS_ETMVERSION_IS_ETMV4 = (\<lambda>v. v = 4)\<rparr>"

definition sample_devices :: cs_devices where
  "sample_devices = \<lparr>etb = 0x10, tpiu = 0x11, itm = 0x12, tsgen = 0x13, ptm = (\<lambda>i. 0x100 + of_nat i),
     trace_sinks = (\<lambda>i. if i < 2 then 0x20 + of_nat i else 0), num_trace_sinks = 2, cpu_id = (\<lambda>_. 0xD03)\<rparr>"

definition sample_board :: board_t where
  "sample_board = \<lparr>hardware = ''ZCU-104'', n_cpu = 4, etr_axictl = 0\<rparr>"

lemma sample_env_simps [simp]:
  "a_int sample_env = sample_int" "a_dev sample_env = sample_dev" "a_u32 sample_env h c = 0"
  "a_u64 sample_env h c = 0x10000" "a_cfg sample_env h c = zero_config" "a_bytes sample_env h c = (0, [])"
  "a_text sample_env h c = None" "a_dir sample_env h c = None" "a_cpus sample_env h c = None"
  "a_board sample_env h c = (-1, None, zero_devices)" "CS_ERRDESC sample_env = 0"
  "CS_ETMVERSION_MAJOR sample_env v = v" "CS_ETMVERSION_ETMv4 sample_env = 4"
  "CS_ETMVERSION_IS_ETMV4 sample_env v = (v = 4)" "CS_ETMC_CONFIG sample_env = 2"
  by (simp_all add: sample_env_def)

end
