(* ===== verification/MapInfo.thy ===== *)
theory MapInfo
  imports CText Environment
begin

text \<open>
  The executable regions of the traced process (\<open>struct map_info\<close> of \<open>include/utils.h\<close> and the map
  info section of \<open>src/utils.c\<close>): \<open>setup_map_info\<close> scans \<open>/proc/<pid>/maps\<close>, records the first
  executable regions that are backed by a file, and maps their files. The main result compares it with
  a description of the address space: printed the way the kernel prints it, exactly the right regions
  are found.
\<close>

section \<open>Data\<close>

record map_info =
  mi_start :: u64
  mi_end :: u64
  mi_offset :: u64
  mi_buf :: u64
  mi_path :: string

definition PAGE_SIZE :: u64 where "PAGE_SIZE = 0x1000"

text \<open>The local variables that one line of the file is scanned into. They are not initialised and keep
  their values from line to line.\<close>

record map_locals =
  ml_start :: u64
  ml_end :: u64
  ml_x :: char
  ml_offset :: u64

section \<open>Scanning\<close>

text \<open>\<open>sscanf\<close> with the format \<open>%lx-%lx %c%c%c%c %lx\<close>: it assigns from left to right and stops at the first
  directive that does not match.\<close>

definition scan_maps_offset :: "string \<Rightarrow> map_locals \<Rightarrow> map_locals" where
  "scan_maps_offset r v = (case scan_lx r of None \<Rightarrow> v | Some (off, _) \<Rightarrow> v\<lparr>ml_offset := off\<rparr>)"

definition scan_maps_perms :: "string \<Rightarrow> map_locals \<Rightarrow> map_locals" where
  "scan_maps_perms r v = (case skip_space r of
       c1 # c2 # c3 # c4 # r \<Rightarrow> scan_maps_offset r (v\<lparr>ml_x := c3\<rparr>)
     | [c1, c2, c3] \<Rightarrow> v\<lparr>ml_x := c3\<rparr>
     | _ \<Rightarrow> v)"

definition scan_maps_line :: "string \<Rightarrow> map_locals \<Rightarrow> map_locals" where
  "scan_maps_line line v = (case scan_lx line of None \<Rightarrow> v | Some (a, r) \<Rightarrow>
     let v = v\<lparr>ml_start := a\<rparr> in case r of [] \<Rightarrow> v | c # r \<Rightarrow>
       if c \<noteq> CHR ''-'' then v else case scan_lx r of None \<Rightarrow> v | Some (b, r) \<Rightarrow>
         scan_maps_perms r (v\<lparr>ml_end := b\<rparr>))"

text \<open>The body of the loop over the lines: the locals, the number of regions recorded and the array.\<close>

fun parse_maps :: "int \<Rightarrow> string list \<Rightarrow> map_locals \<Rightarrow> nat \<Rightarrow> (nat \<Rightarrow> map_info) \<Rightarrow> nat \<times> (nat \<Rightarrow> map_info)" where
  "parse_maps info_count_max [] v count mi = (count, mi)"
| "parse_maps info_count_max (l # ls) v count mi =
     (let line = cstr (strip_newline l);
          v = scan_maps_line line v
      in if ml_x v \<noteq> CHR ''x'' then parse_maps info_count_max ls v count mi
         else if int count \<ge> info_count_max then parse_maps info_count_max ls v count mi
         else case strchr line (CHR ''/'') of
             None \<Rightarrow> parse_maps info_count_max ls v count mi
           | Some path \<Rightarrow>
               parse_maps info_count_max ls v (Suc count)
                 (mi(count := \<lparr>mi_start = ml_start v, mi_end = ml_end v, mi_offset = ml_offset v, mi_buf = 0,
                     mi_path = take (PATH_MAX - 1) path\<rparr>)))"

text \<open>The loop that maps the files: \<open>Inl\<close> when it returns early.\<close>

fun map_regions ::
  "env \<Rightarrow> nat list \<Rightarrow> (nat \<Rightarrow> map_info) \<Rightarrow> 'z world_scheme \<Rightarrow> ((bool \<times> (nat \<Rightarrow> map_info)) \<times> 'z world_scheme) option" where
  "map_regions E [] mi s = Some ((True, mi), s)"
| "map_regions E (i # is) mi s = do {
     (fd, s) \<leftarrow> os_int E (Open (mi_path (mi i))) s;
     if fd < -1 then Some ((False, mi), s)
     else do {
       let buf_size = ALIGN_UP (mi_end (mi i) - mi_start (mi i)) PAGE_SIZE;
       (buf, s) \<leftarrow> ask (a_u64 E) (OS (Mmap_file fd buf_size (mi_offset (mi i)))) s;
       if buf = 0 then do {
         (_, s) \<leftarrow> os_int E (Close fd) s;
         Some ((False, mi), s)
       } else do {
         (_, s) \<leftarrow> os_int E (Close fd) s;
         map_regions E is (mi(i := (mi i)\<lparr>mi_buf := buf\<rparr>)) s
       }
     }
   }"

definition maps_path :: "int \<Rightarrow> string" where
  "maps_path pid = snprintf PATH_MAX (''/proc/'' @ print_int pid @ ''/maps'')"

text \<open>\<open>Read_text\<close> stands for the loop that reads the stream to its end; a stream that cannot be read gives no line.
  A null stream is answered as 0. \<open>v\<close> is what the uninitialised locals hold.\<close>

definition setup_map_info ::
  "env \<Rightarrow> map_locals \<Rightarrow> int \<Rightarrow> (nat \<Rightarrow> map_info) \<Rightarrow> int \<Rightarrow> 'z world_scheme \<Rightarrow>
   ((int \<times> (nat \<Rightarrow> map_info)) \<times> 'z world_scheme) option" where
  "setup_map_info E v pid mi info_count_max s = do {
     (fp, s) \<leftarrow> os_int E (Fopen (maps_path pid) ''r'') s;
     if fp = 0 then Some ((-1, mi), s)
     else do {
       (text, s) \<leftarrow> ask (a_text E) (OS (Read_text (maps_path pid))) s;
       let (count, mi) = parse_maps info_count_max (getdelims (CHR 0x0A) (stream_text text)) v 0 mi;
       (_, s) \<leftarrow> os_int E (Fclose fp) s;
       ((ok, mi), s) \<leftarrow> map_regions E [0..<count] mi s;
       Some ((if ok then int count else -1, mi), s)
     }
   }"

text \<open>What \<open>dump_map_info\<close> prints.\<close>

definition dump_map_info_line :: "map_info \<Rightarrow> string" where
  "dump_map_info_line m = ''[0x'' @ print_nat 16 (unat (mi_start m)) @ ''-0x'' @ print_nat 16 (unat (mi_end m)) @
     '']@0x'' @ print_nat 16 (unat (mi_offset m)) @ '': '' @ mi_path m @ [CHR 0x0A]"

definition dump_map_info :: "(nat \<Rightarrow> map_info) \<Rightarrow> int \<Rightarrow> string" where
  "dump_map_info mi count = concat (map (\<lambda>i. dump_map_info_line (mi i)) [0..<nat count])"

section \<open>The file as the kernel prints it\<close>

record vma =
  vma_start :: u64
  vma_end :: u64
  vma_perms :: string
  vma_offset :: u64
  vma_tail :: string

text \<open>Hexadecimal numbers are padded to eight digits.\<close>

definition print_hex8 :: "u64 \<Rightarrow> string" where
  "print_hex8 w = (let ds = print_nat 16 (unat w) in replicate (8 - length ds) (CHR ''0'') @ ds)"

definition print_vma_line :: "vma \<Rightarrow> string" where
  "print_vma_line v = print_hex8 (vma_start v) @ ''-'' @ print_hex8 (vma_end v) @ '' '' @ vma_perms v @ '' '' @
     print_hex8 (vma_offset v) @ vma_tail v"

definition print_vma :: "vma \<Rightarrow> string" where
  "print_vma v = print_vma_line v @ [CHR 0x0A]"

text \<open>The four permission characters are letters or dashes; behind the offset come the device, the inode and
  possibly a path, on one line.\<close>

definition vma_ok :: "vma \<Rightarrow> bool" where
  "vma_ok v \<longleftrightarrow> length (vma_perms v) = 4 \<and> set (vma_perms v) \<subseteq> set ''rwxps-'' \<and> stops 16 (vma_tail v) \<and>
     CHR 0x0A \<notin> set (vma_tail v) \<and> CHR 0x00 \<notin> set (vma_tail v)"

definition traced :: "vma \<Rightarrow> bool" where
  "traced v \<longleftrightarrow> vma_perms v ! 2 = CHR ''x'' \<and> CHR ''/'' \<in> set (vma_tail v)"

definition vma_path :: "vma \<Rightarrow> string" where
  "vma_path v = take (PATH_MAX - 1) (dropWhile (\<lambda>c. c \<noteq> CHR ''/'') (vma_tail v))"

definition vma_region :: "vma \<Rightarrow> map_info" where
  "vma_region v = \<lparr>mi_start = vma_start v, mi_end = vma_end v, mi_offset = vma_offset v, mi_buf = 0, mi_path = vma_path v\<rparr>"

lemma digit_char_0: "digit_char 0 = CHR ''0''"
  by (simp add: digit_char_def)

lemma print_hex8_digits:
  "\<exists>ds. ds \<noteq> [] \<and> print_hex8 w = map digit_char ds \<and> (\<forall>d \<in> set ds. d < 16) \<and>
     digits_value 16 (print_hex8 w) = unat w"
proof -
  obtain ds where ds: "ds \<noteq> []" "print_nat 16 (unat w) = map digit_char ds" "\<forall>d \<in> set ds. d < 16"
    "digits_value 16 (print_nat 16 (unat w)) = unat w"
    using print_nat_digits [of 16 "unat w"] by auto
  have z: "digits_value 16 (replicate k (CHR ''0'') @ t) = digits_value 16 t" for k t
    by (induction k) (simp_all add: digits_value_def digit_value_def)
  show ?thesis using ds z
    by (intro exI [of _ "replicate (8 - length (print_nat 16 (unat w))) 0 @ ds"])
      (auto simp: print_hex8_def Let_def digit_char_0)
qed

lemma scan_print_hex8 [simp]: "stops 16 r \<Longrightarrow> scan_lx (print_hex8 w @ r) = Some (w, r)"
proof -
  assume r: "stops 16 r"
  obtain ds where "ds \<noteq> []" "print_hex8 w = map digit_char ds" "\<forall>d \<in> set ds. d < 16"
    "digits_value 16 (print_hex8 w) = unat w"
    using print_hex8_digits by blast
  with scan_number_digits [of ds 16 r] r have "scan_number 16 (print_hex8 w @ r) = Some (int (unat w), r)" by simp
  then show ?thesis
    using unsigned_less [of w, where 'a = int] by (simp add: scan_lx_def to_ulong_def)
qed

lemma print_hex8_plain:
  "c \<in> set (print_hex8 w) \<Longrightarrow> c \<noteq> CHR 0x00 \<and> c \<noteq> CHR 0x0A \<and> c \<noteq> CHR ''/''"
proof -
  assume "c \<in> set (print_hex8 w)"
  then obtain d where "d < 16" "c = digit_char d" using print_hex8_digits [of w] by (metis imageE list.set_map)
  then show ?thesis by simp
qed

lemma stops_literals [simp]: "stops 16 (CHR ''-'' # r)" "stops 16 (CHR '' '' # r)"
  by (simp_all add: stops_def in_base_def digit_value_def)

lemma scan_print_vma:
  assumes "vma_ok v"
  shows "scan_maps_line (print_vma_line v) l =
    \<lparr>ml_start = vma_start v, ml_end = vma_end v, ml_x = vma_perms v ! 2, ml_offset = vma_offset v\<rparr>"
proof -
  obtain c1 c2 c3 c4 where p: "vma_perms v = [c1, c2, c3, c4]"
    using assms by (auto simp: vma_ok_def length_Suc_conv eval_nat_numeral)
  have sp: "\<not> isspace c1" using assms p by (auto simp: vma_ok_def isspace_def)
  have t: "stops 16 (vma_tail v)" using assms by (simp add: vma_ok_def)
  have sp': "isspace (CHR '' '')" by (simp add: isspace_def)
  have "scan_maps_perms ('' '' @ vma_perms v @ '' '' @ print_hex8 (vma_offset v) @ vma_tail v) w =
      w\<lparr>ml_x := c3, ml_offset := vma_offset v\<rparr>" for w
    using sp sp' t by (simp add: scan_maps_perms_def skip_space_def p scan_maps_offset_def)
  then show ?thesis by (simp add: scan_maps_line_def print_vma_line_def p Let_def)
qed

lemma print_vma_line_plain:
  assumes "vma_ok v"
  shows "CHR 0x0A \<notin> set (print_vma_line v)" and "cstr (print_vma_line v) = print_vma_line v"
    and "dropWhile (\<lambda>c. c \<noteq> CHR ''/'') (print_vma_line v) = dropWhile (\<lambda>c. c \<noteq> CHR ''/'') (vma_tail v)"
proof -
  have p: "c \<noteq> CHR 0x0A \<and> c \<noteq> CHR 0x00 \<and> c \<noteq> CHR ''/''" if "c \<in> set (vma_perms v)" for c
    using that assms by (auto simp: vma_ok_def)
  show "CHR 0x0A \<notin> set (print_vma_line v)"
    using p print_hex8_plain assms by (fastforce simp: print_vma_line_def vma_ok_def)
  have "CHR 0x00 \<notin> set (print_vma_line v)"
    using p print_hex8_plain assms by (fastforce simp: print_vma_line_def vma_ok_def)
  then show "cstr (print_vma_line v) = print_vma_line v"
    unfolding cstr_def by (intro takeWhile_eq_all_conv [THEN iffD2]) auto
  let ?h = "print_hex8 (vma_start v) @ ''-'' @ print_hex8 (vma_end v) @ '' '' @ vma_perms v @ '' '' @
     print_hex8 (vma_offset v)"
  have "\<forall>c \<in> set ?h. c \<noteq> CHR ''/''" using p print_hex8_plain by fastforce
  then have "dropWhile (\<lambda>c. c \<noteq> CHR ''/'') (?h @ vma_tail v) = dropWhile (\<lambda>c. c \<noteq> CHR ''/'') (vma_tail v)"
    by (subst dropWhile_append) simp
  then show "dropWhile (\<lambda>c. c \<noteq> CHR ''/'') (print_vma_line v) = dropWhile (\<lambda>c. c \<noteq> CHR ''/'') (vma_tail v)"
    by (simp add: print_vma_line_def)
qed

lemma strchr_vma:
  assumes "vma_ok v"
  shows "strchr (print_vma_line v) (CHR ''/'') =
    (if CHR ''/'' \<in> set (vma_tail v) then Some (dropWhile (\<lambda>c. c \<noteq> CHR ''/'') (vma_tail v)) else None)"
  using print_vma_line_plain(3) [OF assms] by (auto simp: strchr_def Let_def dropWhile_eq_Nil_conv)

lemma strip_newline_vma [simp]: "strip_newline (print_vma v) = print_vma_line v"
  by (simp add: print_vma_def strip_newline_def)

section \<open>The scan finds the regions\<close>

lemma parse_maps_vma:
  assumes "vma_ok v"
  shows "\<exists>l'. parse_maps m (print_vma v # ls) l count mi =
    (if traced v \<and> int count < m then parse_maps m ls l' (Suc count) (mi(count := vma_region v))
     else parse_maps m ls l' count mi)"
  using scan_print_vma [OF assms, of l] print_vma_line_plain(2) [OF assms] strchr_vma [OF assms]
  by (auto simp: Let_def traced_def vma_region_def vma_path_def)

text \<open>The array with the regions of a list stored from index \<open>n\<close> on.\<close>

definition put_regions :: "nat \<Rightarrow> vma list \<Rightarrow> (nat \<Rightarrow> map_info) \<Rightarrow> nat \<Rightarrow> map_info" where
  "put_regions n vs mi = (\<lambda>i. if n \<le> i \<and> i < n + length vs then vma_region (vs ! (i - n)) else mi i)"

lemma put_regions_Nil [simp]: "put_regions n [] mi = mi"
  by (rule ext) (auto simp: put_regions_def)

lemma put_regions_Cons: "put_regions (Suc n) vs (mi(n := vma_region v)) = put_regions n (v # vs) mi"
  by (rule ext) (auto simp: put_regions_def nth_Cons')

lemma parse_maps_vmas:
  assumes "\<forall>v \<in> set vs. vma_ok v"
  shows "parse_maps m (map print_vma vs) l count mi =
    (let sel = take (nat (m - int count)) (filter traced vs) in (count + length sel, put_regions count sel mi))"
  using assms
proof (induction vs arbitrary: l count mi)
  case Nil
  then show ?case by simp
next
  case (Cons v vs)
  then have v: "vma_ok v" and IH: "parse_maps m (map print_vma vs) l' c a =
    (let sel = take (nat (m - int c)) (filter traced vs) in (c + length sel, put_regions c sel a))" for l' c a
    by simp_all
  obtain l' where step: "parse_maps m (print_vma v # map print_vma vs) l count mi =
    (if traced v \<and> int count < m then parse_maps m (map print_vma vs) l' (Suc count) (mi(count := vma_region v))
     else parse_maps m (map print_vma vs) l' count mi)"
    using parse_maps_vma [OF v] by blast
  have n: "nat (m - int count) = Suc (nat (m - int (Suc count)))" if "int count < m" using that by simp
  show ?case unfolding list.map step IH Let_def
    using n by (auto simp: put_regions_Cons not_less)
qed

lemma getdelims_piece: "d \<notin> set p \<Longrightarrow> getdelims d (p @ d # s) = (p @ [d]) # getdelims d s"
  by (induction p) auto

lemma getdelims_vmas:
  "\<forall>v \<in> set vs. vma_ok v \<Longrightarrow> getdelims (CHR 0x0A) (concat (map print_vma vs)) = map print_vma vs"
  by (induction vs) (simp_all add: print_vma_def getdelims_piece print_vma_line_plain)

section \<open>Mapping the files\<close>

text \<open>\<open>same_regions\<close>: the two arrays agree up to the addresses where the files are mapped.\<close>

definition same_regions :: "(nat \<Rightarrow> map_info) \<Rightarrow> (nat \<Rightarrow> map_info) \<Rightarrow> bool" where
  "same_regions mi mi' \<longleftrightarrow> (\<forall>i. (mi i)\<lparr>mi_buf := 0\<rparr> = (mi' i)\<lparr>mi_buf := 0\<rparr>)"

lemma same_regions_upd:
  "same_regions mi mi' \<Longrightarrow> same_regions mi (mi'(i := (mi' i)\<lparr>mi_buf := p\<rparr>))"
  by (auto simp: same_regions_def)

definition mapped :: "nat list \<Rightarrow> (nat \<Rightarrow> map_info) \<Rightarrow> bool \<Rightarrow> (nat \<Rightarrow> map_info) \<Rightarrow> bool" where
  "mapped ids mi ok mi' \<longleftrightarrow> same_regions mi mi' \<and> (\<forall>i. i \<notin> set ids \<longrightarrow> mi' i = mi i) \<and>
     (ok \<longrightarrow> (\<forall>i \<in> set ids. mi_buf (mi' i) \<noteq> 0))"

lemma mapped_Cons:
  assumes "mapped ids (mi(i := (mi i)\<lparr>mi_buf := p\<rparr>)) ok mi'" and "p \<noteq> 0"
  shows "mapped (i # ids) mi ok mi'"
proof -
  have "same_regions mi mi'"
    using assms(1) unfolding mapped_def same_regions_def
    by (metis fun_upd_apply map_info.update_convs(4) map_info.surjective)
  with assms show ?thesis by (cases "i \<in> set ids") (auto simp: mapped_def)
qed

lemma map_regions_total: "returns (map_regions E ids mi s) (\<lambda>(ok, mi') s'. mapped ids mi ok mi')"
proof (induction ids arbitrary: mi s)
  case Nil
  then show ?case by (simp add: mapped_def same_regions_def)
next
  case (Cons i ids)
  let ?o = "OS (Open (mi_path (mi i)))"
  let ?fd = "a_int E (hist s) ?o"
  let ?m = "OS (Mmap_file ?fd (ALIGN_UP (mi_end (mi i) - mi_start (mi i)) PAGE_SIZE) (mi_offset (mi i)))"
  let ?p = "a_u64 E (hist s @ [?o]) ?m"
  let ?mi = "mi(i := (mi i)\<lparr>mi_buf := ?p\<rparr>)"
  show ?case
  proof (cases "?fd < -1 \<or> ?p = 0")
    case True
    then show ?thesis by (auto simp: ask_defs Let_def mapped_def same_regions_def)
  next
    case False
    have "returns (map_regions E ids ?mi (s\<lparr>hist := hist s @ [?o, ?m, OS (Close ?fd)]\<rparr>))
        (\<lambda>(ok, mi') s'. mapped (i # ids) mi ok mi')"
      by (rule returns_mono [OF Cons.IH]) (use False in \<open>auto simp del: fun_upd_apply intro: mapped_Cons\<close>)
    with False show ?thesis by (simp add: ask_defs Let_def)
  qed
qed

lemma map_regions_ok:
  assumes "\<And>h f. a_int E h (OS (Open f)) \<ge> -1" and "\<And>h fd n off. a_u64 E h (OS (Mmap_file fd n off)) \<noteq> 0"
  shows "\<exists>mi' s'. map_regions E ids mi s = Some ((True, mi'), s')"
  using assms(1) [THEN leD] assms(2) by (induction ids arbitrary: mi s) (simp_all add: ask_defs Let_def)

lemma parse_maps_step:
  "\<exists>v' x. parse_maps m (l # ls) v count mi = parse_maps m ls v' count mi \<or>
     int count < m \<and> parse_maps m (l # ls) v count mi = parse_maps m ls v' (Suc count) (mi(count := x))"
  by (cases "strchr (cstr (strip_newline l)) (CHR ''/'')") (auto simp: Let_def)

lemma parse_maps_bounds:
  "parse_maps m ls v count mi = (n, mi') \<Longrightarrow> int count \<le> m \<Longrightarrow>
   count \<le> n \<and> int n \<le> m \<and> (\<forall>i. i < count \<or> n \<le> i \<longrightarrow> mi' i = mi i)"
proof (induction ls arbitrary: v count mi)
  case Nil
  then show ?case by simp
next
  case (Cons l ls)
  from parse_maps_step [of m l ls v count mi] consider
    v' where "parse_maps m ls v' count mi = (n, mi')"
  | v' x where "int count < m" "parse_maps m ls v' (Suc count) (mi(count := x)) = (n, mi')"
    using Cons.prems(1) by auto
  then show ?case
  proof cases
    case 1
    then show ?thesis using Cons.IH Cons.prems(2) by blast
  next
    case 2
    then show ?thesis using Cons.IH [OF 2(2)] by auto
  qed
qed

lemma region_fields:
  "m\<lparr>mi_buf := 0\<rparr> = vma_region v \<Longrightarrow> mi_start m = vma_start v \<and> mi_end m = vma_end v \<and>
   mi_offset m = vma_offset v \<and> mi_path m = vma_path v"
  by (cases m) (simp add: vma_region_def)

section \<open>Properties\<close>

text \<open>C19. When \<open>/proc/<pid>/maps\<close> describes an address space in the kernel's format, \<open>setup_map_info\<close> records
  exactly the first \<open>info_count_max\<close> executable regions that are backed by a file, with their bounds,
  offset and path (cut to the size of the array), in order, and returns their number, whatever the
  uninitialised locals hold.\<close>

theorem setup_map_info_regions:
  assumes "\<forall>v \<in> set vs. vma_ok v"
    and "opn = OS (Fopen (maps_path pid) ''r'')" and "a_int E (hist s) opn \<noteq> 0"
    and "a_text E (hist s @ [opn]) (OS (Read_text (maps_path pid))) = Some (concat (map print_vma vs))"
    and "\<And>h f. a_int E h (OS (Open f)) \<ge> -1" and "\<And>h fd n off. a_u64 E h (OS (Mmap_file fd n off)) \<noteq> 0"
    and "sel = take (nat m) (filter traced vs)"
  shows "\<exists>mi' s'. setup_map_info E l pid mi m s = Some ((int (length sel), mi'), s') \<and>
    (\<forall>i < length sel. mi_start (mi' i) = vma_start (sel ! i) \<and> mi_end (mi' i) = vma_end (sel ! i) \<and>
       mi_offset (mi' i) = vma_offset (sel ! i) \<and> mi_path (mi' i) = vma_path (sel ! i) \<and> mi_buf (mi' i) \<noteq> 0) \<and>
    (\<forall>i \<ge> length sel. mi' i = mi i)"
proof -
  let ?n = "length sel" and ?mi = "put_regions 0 sel mi"
  let ?s = "s\<lparr>hist := hist s @ [opn, OS (Read_text (maps_path pid)), OS (Fclose (a_int E (hist s) opn))]\<rparr>"
  have parse: "parse_maps m (getdelims (CHR 0x0A) (concat (map print_vma vs))) l 0 mi = (?n, ?mi)"
    using getdelims_vmas [OF assms(1)] parse_maps_vmas [OF assms(1), of m l 0 mi] assms(7) by (simp add: Let_def)
  obtain mi' s' where run: "map_regions E [0..<?n] ?mi ?s = Some ((True, mi'), s')"
    using map_regions_ok [OF assms(5,6)] by blast
  with map_regions_total [of E "[0..<?n]" ?mi ?s] have m: "mapped [0..<?n] ?mi True mi'"
    by simp
  have "(?mi i)\<lparr>mi_buf := 0\<rparr> = (mi' i)\<lparr>mi_buf := 0\<rparr>" for i
    using m unfolding mapped_def same_regions_def by blast
  then have "(mi' i)\<lparr>mi_buf := 0\<rparr> = vma_region (sel ! i)" if "i < ?n" for i
    using that by (simp add: vma_region_def put_regions_def flip: \<open>\<And>i. (?mi i)\<lparr>mi_buf := 0\<rparr> = (mi' i)\<lparr>mi_buf := 0\<rparr>\<close>)
  then have "mi_start (mi' i) = vma_start (sel ! i) \<and> mi_end (mi' i) = vma_end (sel ! i) \<and>
       mi_offset (mi' i) = vma_offset (sel ! i) \<and> mi_path (mi' i) = vma_path (sel ! i)" if "i < ?n" for i
    using that by (intro region_fields) simp
  moreover have "\<forall>i \<ge> ?n. mi' i = mi i" using m by (auto simp: mapped_def put_regions_def)
  moreover have "setup_map_info E l pid mi m s = Some ((int ?n, mi'), s')"
    using assms(2-4) run parse by (simp add: setup_map_info_def ask_defs stream_text_def)
  ultimately show ?thesis using m by (auto simp: mapped_def)
qed

lemma setup_map_info_bounds:
  assumes "0 \<le> m"
  shows "\<exists>n mi' s'. setup_map_info E l pid mi m s = Some ((n, mi'), s') \<and> -1 \<le> n \<and> n \<le> m \<and>
     (\<forall>i. m \<le> int i \<longrightarrow> mi' i = mi i)"
proof -
  let ?o = "OS (Fopen (maps_path pid) ''r'')" and ?t = "OS (Read_text (maps_path pid))"
  let ?fp = "a_int E (hist s) ?o" and ?text = "stream_text (a_text E (hist s @ [?o]) ?t)"
  let ?s = "s\<lparr>hist := hist s @ [?o, ?t, OS (Fclose ?fp)]\<rparr>"
  show ?thesis
  proof (cases "?fp = 0")
    case True
    then show ?thesis using assms by (simp add: setup_map_info_def ask_defs)
  next
    case False
    obtain n mi1 where p: "parse_maps m (getdelims (CHR 0x0A) ?text) l 0 mi = (n, mi1)" by fastforce
    from parse_maps_bounds [OF p] assms have n: "int n \<le> m" "\<forall>i \<ge> n. mi1 i = mi i" by auto
    from map_regions_total [of E "[0..<n]" mi1 ?s] obtain ok mi' s' where
      "map_regions E [0..<n] mi1 ?s = Some ((ok, mi'), s')" "\<forall>i \<ge> n. mi' i = mi1 i"
      by (auto elim!: returnsE simp: mapped_def)
    with False p n show ?thesis using assms
      by (auto simp: setup_map_info_def ask_defs Let_def intro!: exI [of _ mi'])
  qed
qed

lemma setup_map_info_range:
  "setup_map_info E l pid mi (int m) s = Some ((n, mi'), s') \<Longrightarrow> -1 \<le> n \<and> n \<le> int m"
  using setup_map_info_bounds [of "int m" E l pid mi s] by auto

text \<open>C7. Whatever the file contains, \<open>setup_map_info\<close> ends, returns -1 or a number of regions between 0 and
  \<open>info_count_max\<close>, and changes no array element from \<open>info_count_max\<close> on.\<close>

theorem setup_map_info_in_bounds:
  assumes "0 \<le> m"
  shows "\<exists>n mi' s'. setup_map_info E l pid mi m s = Some ((n, mi'), s') \<and> -1 \<le> n \<and> n \<le> m \<and>
     (\<forall>i. m \<le> int i \<longrightarrow> mi' i = mi i)"
  by (rule setup_map_info_bounds [OF assms])

text \<open>A file that cannot be opened is not noticed: \<open>open\<close> answers -1, which passes the test, \<open>mmap\<close>
  fails for that descriptor with \<open>MAP_FAILED\<close>, which passes the test as well, and the region is
  recorded with \<open>MAP_FAILED\<close> as its mapping while the number of regions is returned as on success.\<close>

theorem setup_map_info_failed_open_undetected:
  assumes "opn = OS (Fopen (maps_path pid) ''r'')" and "a_int E (hist s) opn \<noteq> 0"
    and "a_text E (hist s @ [opn]) (OS (Read_text (maps_path pid))) = Some text"
    and "parse_maps m (getdelims (CHR 0x0A) text) l 0 mi = (1, mi1)"
    and "\<And>h f. a_int E h (OS (Open f)) = -1" and "\<And>h n off. a_u64 E h (OS (Mmap_file (-1) n off)) = -1"
  shows "\<exists>mi' s'. setup_map_info E l pid mi m s = Some ((1, mi'), s') \<and> mi_buf (mi' 0) = -1"
  using assms by (simp add: setup_map_info_def ask_defs Let_def stream_text_def)

section \<open>Witnesses\<close>

definition sample_vmas :: "vma list" where
  "sample_vmas =
    [\<lparr>vma_start = 0x400000, vma_end = 0x401000, vma_perms = ''r--p'', vma_offset = 0, vma_tail = '' 08:01 42 /bin/a''\<rparr>,
     \<lparr>vma_start = 0x401000, vma_end = 0x402800, vma_perms = ''r-xp'', vma_offset = 0x1000, vma_tail = '' 08:01 42 /bin/a''\<rparr>,
     \<lparr>vma_start = 0x7fff0000, vma_end = 0x7fff2000, vma_perms = ''r-xp'', vma_offset = 0, vma_tail = '' 00:00 0 [vdso]''\<rparr>]"

definition sample_maps_env :: env where
  "sample_maps_env = sample_env\<lparr>a_int := (\<lambda>h c. 3), a_text := (\<lambda>h c. Some (concat (map print_vma sample_vmas)))\<rparr>"

definition no_regions :: "nat \<Rightarrow> map_info" where
  "no_regions i = \<lparr>mi_start = 0, mi_end = 0, mi_offset = 0, mi_buf = 0, mi_path = []\<rparr>"

definition any_locals :: map_locals where
  "any_locals = \<lparr>ml_start = 7, ml_end = 7, ml_x = CHR ''x'', ml_offset = 7\<rparr>"

lemma sample_vmas_ok: "\<forall>v \<in> set sample_vmas. vma_ok v"
  by (simp add: sample_vmas_def vma_ok_def)

lemma sample_vmas_traced: "filter traced sample_vmas = [sample_vmas ! 1]"
  by (simp add: sample_vmas_def traced_def)

lemma sample_region:
  "vma_start (sample_vmas ! Suc 0) = 0x401000" "vma_path (sample_vmas ! Suc 0) = ''/bin/a''"
  by (simp_all add: sample_vmas_def vma_path_def PATH_MAX_def)

theorem setup_map_info_regions_witness:
  "\<exists>mi' s'. setup_map_info sample_maps_env any_locals 77 no_regions 1 \<lparr>hist = []\<rparr> = Some ((1, mi'), s') \<and>
     mi_start (mi' 0) = 0x401000 \<and> mi_path (mi' 0) = ''/bin/a''"
proof -
  from setup_map_info_regions [OF sample_vmas_ok refl, of sample_maps_env "\<lparr>hist = []\<rparr>" 77 _ 1 any_locals no_regions] show ?thesis
    by (auto simp: sample_vmas_traced sample_maps_env_def sample_region)
qed

theorem setup_map_info_in_bounds_witness:
  "\<exists>n mi' s'. setup_map_info sample_maps_env any_locals 77 no_regions 1 \<lparr>hist = []\<rparr> = Some ((n, mi'), s') \<and>
     n \<le> 1 \<and> mi' 1 = no_regions 1"
proof -
  have "0 \<le> (1 :: int)" by simp
  from setup_map_info_in_bounds [OF this, of sample_maps_env any_locals 77 no_regions "\<lparr>hist = []\<rparr>"]
  show ?thesis by fastforce
qed

definition no_file_env :: env where
  "no_file_env = sample_maps_env\<lparr>a_int := (\<lambda>h c. -1), a_u64 := (\<lambda>h c. -1)\<rparr>"

theorem setup_map_info_failed_open_undetected_witness:
  "\<exists>mi' s'. setup_map_info no_file_env any_locals 77 no_regions 1 \<lparr>hist = []\<rparr> = Some ((1, mi'), s') \<and>
     mi_buf (mi' 0) = -1"
proof (rule setup_map_info_failed_open_undetected [OF refl])
  show "parse_maps 1 (getdelims (CHR 0x0A) (concat (map print_vma sample_vmas))) any_locals 0 no_regions =
      (1, put_regions 0 [sample_vmas ! 1] no_regions)"
    using getdelims_vmas [OF sample_vmas_ok] parse_maps_vmas [OF sample_vmas_ok, of 1 any_locals 0 no_regions]
    by (simp add: sample_vmas_traced)
qed (simp_all add: no_file_env_def sample_maps_env_def)

end
