(* ===== verification/Config.thy ===== *)
theory Config
  imports MapInfo
begin

text \<open>
  \<open>src/config.c\<close>: programming of the ETMs, and enabling and disabling of the trace path.
  Procedures take the objects their C counterparts get by pointer (\<open>None\<close> is the null pointer) and
  the extern variables they read; a procedure that writes through a pointer returns the new object.
  The results are: every operation only makes calls (\<open>appends\<close>); the enabling and disabling
  operations refine scripts of calls; the configuration written to an ETM filters exactly the
  wanted address range and context; every CPU's source gets its own trace id.
\<close>

section \<open>Feature switches and the flush\<close>

definition return_stack :: bool where "return_stack = False"
definition branch_broadcast :: bool where "branch_broadcast = True"
definition cycle_count :: bool where "cycle_count = False"

definition cs_etb_flush_and_wait_stop ::
  "env \<Rightarrow> cs_devices \<Rightarrow> 'z world_scheme \<Rightarrow> (unit \<times> 'z world_scheme) option" where
  "cs_etb_flush_and_wait_stop E devices s = do {
     (enabled, s) \<leftarrow> cs_int E (Cs_sink_is_enabled (etb devices)) s;
     if enabled \<noteq> 0 then do {
       (ffcr_val, s) \<leftarrow> ask (a_u32 E) (CS (Cs_device_read (etb devices) (CS_ETB_FLFMT_CTRL E))) s;
       let ffcr_val = ffcr_val OR CS_ETB_FLFMT_CTRL_FOnMan E;
       (_, s) \<leftarrow> cs_int E (Cs_device_write (etb devices) (CS_ETB_FLFMT_CTRL E) ffcr_val) s;
       (_, s) \<leftarrow> cs_int E (Cs_device_wait (etb devices) (CS_ETB_STATUS E) (CS_ETB_STATUS_FtEmpty E)) s;
       Some ((), s)
     } else Some ((), s)
   }"

section \<open>ETM configuration\<close>

definition set_etmv4_addr_range ::
  "env \<Rightarrow> map_info option \<Rightarrow> (nat \<Rightarrow> adrcmp) option \<Rightarrow> u32 \<Rightarrow> (nat \<Rightarrow> adrcmp) option" where
  "set_etmv4_addr_range E rng addr_comp acc_type_ex =
     (let acc_type = CS_ETMV4_ACATR_ExEL0_S E OR CS_ETMV4_ACATR_ExEL1_S E OR
            CS_ETMV4_ACATR_ExEL2_S E OR CS_ETMV4_ACATR_ExEL1_NS E OR
            CS_ETMV4_ACATR_ExEL2_NS E OR acc_type_ex
      in case (rng, addr_comp) of
           (Some r, Some c) \<Rightarrow> Some (c
             (0 := (c 0)\<lparr>acvr_l := ucast (mi_start r AND 0xFFFFFFFF),
                         acvr_h := ucast (drop_bit 32 (mi_start r) AND 0xFFFFFFFF),
                         acatr_l := acc_type\<rparr>,
              1 := (c 1)\<lparr>acvr_l := ucast (mi_end r AND 0xFFFFFFFF),
                         acvr_h := ucast (drop_bit 32 (mi_end r) AND 0xFFFFFFFF),
                         acatr_l := acc_type\<rparr>))
         | _ \<Rightarrow> addr_comp)"

text \<open>The part of \<open>configure_etmv4_addr_range_cid\<close> between reading the configuration and writing
  it back. Both comparator indices are the constant 0.\<close>

definition etmv4_features :: "u64 \<Rightarrow> etmv4_config \<Rightarrow> etmv4_config" where
  "etmv4_features cid tconfig =
     (let tconfig = (if idr2_vmidsize tconfig > 0 then tconfig\<lparr>configr_vmid := 0\<rparr> else tconfig);
          tconfig = (if idr2_cidsize tconfig > 0 \<and> cid > 0
                     then tconfig\<lparr>configr_cid := 1\<rparr> else tconfig\<lparr>configr_cid := 0\<rparr>);
          tconfig = (if return_stack then tconfig\<lparr>configr_rs := 1\<rparr> else tconfig);
          tconfig = (if branch_broadcast then tconfig\<lparr>configr_bb := 1\<rparr> else tconfig)
      in if cycle_count then tconfig\<lparr>configr_cci := 1\<rparr> else tconfig)"

definition etmv4_context_comparator :: "env \<Rightarrow> u64 \<Rightarrow> etmv4_config \<Rightarrow> etmv4_config" where
  "etmv4_context_comparator E cid tconfig =
     (if cid > 0 then
        tconfig\<lparr>cxid_comps := (cxid_comps tconfig)(0 := (cxid_comps tconfig 0)
                  \<lparr>cidcvr_l := ucast (cid AND 0xFFFFFFFF),
                   cidcvr_h := ucast (drop_bit 32 cid AND 0xFFFFFFFF)\<rparr>),
                cidcctlr0 := cidcctlr0 tconfig AND NOT (push_bit 0 1),
                cxid_comps_acc_mask := cxid_comps_acc_mask tconfig OR push_bit 0 1,
                flags := flags tconfig OR CS_ETMC_CXID_COMP E\<rparr>
      else tconfig)"

definition etmv4_address_comparator :: "env \<Rightarrow> map_info \<Rightarrow> u64 \<Rightarrow> etmv4_config \<Rightarrow> etmv4_config" where
  "etmv4_address_comparator E rng cid tconfig =
     tconfig\<lparr>addr_comps := the (set_etmv4_addr_range E (Some rng) (Some (addr_comps tconfig))
               (if cid > 0 then push_bit 4 0 OR push_bit 2 1 else 0)),
             addr_comps_acc_mask := addr_comps_acc_mask tconfig OR push_bit 0 3,
             viiectlr := viiectlr tconfig OR push_bit (0 div 2) 1,
             flags := flags tconfig OR CS_ETMC_ADDR_COMP E\<rparr>"

definition show_etm_config :: "env \<Rightarrow> cs_device \<Rightarrow> 'z world_scheme \<Rightarrow> (unit \<times> 'z world_scheme) option" where
  "show_etm_config E etm s = do {
     (is_source, s) \<leftarrow> cs_int E (Cs_device_has_class etm) s;
     if is_source = 0 then None \<comment> \<open>the assertion fails\<close>
     else do {
       (version, s) \<leftarrow> cs_int E (Cs_etm_get_version etm) s;
       if CS_ETMVERSION_MAJOR E version < CS_ETMVERSION_ETMv4 E then Some ((), s)
       else None \<comment> \<open>\<open>t4config\<close> is null when its field \<open>flags\<close> is assigned\<close>
     }
   }"

definition configure_etmv4_addr_range_cid ::
  "env \<Rightarrow> int \<Rightarrow> cs_device \<Rightarrow> (nat \<Rightarrow> map_info) \<Rightarrow> nat \<Rightarrow> u64 \<Rightarrow> 'z world_scheme \<Rightarrow>
   (int \<times> 'z world_scheme) option" where
  "configure_etmv4_addr_range_cid E registration_verbose etm rng range_count cid s = do {
     (tconfig, s) \<leftarrow> ask (a_cfg E) (CS (Cs_etm_config_init_ex etm)) s;
     let tconfig = tconfig\<lparr>flags := CS_ETMC_TRACE_ENABLE E OR CS_ETMC_CONFIG E OR CS_ETMC_EVENTSELECT E\<rparr>;
     (tconfig, s) \<leftarrow> ask (a_cfg E) (CS (Cs_etm_config_get_ex etm tconfig)) s;
     let tconfig = etmv4_features cid tconfig;
     let tconfig = etmv4_context_comparator E cid tconfig;
     let tconfig = etmv4_address_comparator E (rng 0) cid tconfig;
     (_, s) \<leftarrow> cs_int E (Cs_etm_config_put_ex etm tconfig) s;
     (_, s) \<leftarrow> (if registration_verbose > 0 then show_etm_config E etm s else Some ((), s));
     (error_count, s) \<leftarrow> cs_int E Cs_error_count s;
     if error_count > 0 then Some (-1, s) else Some (0, s)
   }"

definition init_etm_config :: "env \<Rightarrow> etmv4_config \<Rightarrow> etmv4_config" where
  "init_etm_config E v4config = v4config
     \<lparr>flags := flags v4config OR (CS_ETMC_TRACE_ENABLE E OR CS_ETMC_EVENTSELECT E),
      victlr := 0x201, viiectlr := 0, vissctlr := 0,
      eventctlr0r := 0, eventctlr1r := 0,
      stallcrlr := push_bit 13 1, syncpr := 0\<rparr>"

definition init_etm :: "env \<Rightarrow> cs_device \<Rightarrow> 'z world_scheme \<Rightarrow> (int \<times> 'z world_scheme) option" where
  "init_etm E dev s = do {
     (is_source, s) \<leftarrow> cs_int E (Cs_device_has_class dev) s;
     if is_source = 0 then None
     else do {
       (etm_version, s) \<leftarrow> cs_int E (Cs_etm_get_version dev) s;
       (rc, s) \<leftarrow> cs_int E (Cs_etm_clean dev) s;
       if rc \<noteq> 0 then Some (rc, s)
       else if \<not> CS_ETMVERSION_IS_ETMV4 E etm_version then None
       else do {
         (v4config, s) \<leftarrow> ask (a_cfg E) (CS (Cs_etm_config_init_ex dev)) s;
         let v4config = v4config\<lparr>flags := CS_ETMC_CONFIG E\<rparr>;
         (v4config, s) \<leftarrow> ask (a_cfg E) (CS (Cs_etm_config_get_ex dev v4config)) s;
         (_, s) \<leftarrow> cs_int E (Cs_etm_config_put_ex dev (init_etm_config E v4config)) s;
         Some (0, s)
       }
     }
   }"

section \<open>configure\_trace\<close>

text \<open>The first loop of \<open>configure_trace\<close>, over the remaining CPU numbers.\<close>

fun configure_sources ::
  "env \<Rightarrow> nat list \<Rightarrow> cs_devices \<Rightarrow> 'z world_scheme \<Rightarrow> ((int \<times> cs_devices) \<times> 'z world_scheme) option" where
  "configure_sources E [] devices s = Some ((0, devices), s)"
| "configure_sources E (i # is) devices s = do {
     (dev, s) \<leftarrow> ask (a_dev E) (CS (Cs_cpu_get_device i)) s;
     let devices = devices\<lparr>ptm := (ptm devices)(i := dev)\<rparr>;
     if dev = CS_ERRDESC E then Some ((-1, devices), s)
     else do {
       (r, s) \<leftarrow> cs_int E (Cs_set_trace_source_id dev (0x10 + int i)) s;
       if r < 0 then Some ((-1, devices), s)
       else do {
         (r, s) \<leftarrow> init_etm E dev s;
         if r < 0 then Some ((-1, devices), s)
         else configure_sources E is devices s
       }
     }
   }"

text \<open>The second loop: an ETM of an older version is skipped.\<close>

fun configure_etms ::
  "env \<Rightarrow> int \<Rightarrow> nat list \<Rightarrow> cs_devices \<Rightarrow> (nat \<Rightarrow> map_info) \<Rightarrow> nat \<Rightarrow> int \<Rightarrow> 'z world_scheme \<Rightarrow>
   (int \<times> 'z world_scheme) option" where
  "configure_etms E verbose [] devices rng range_count pid s = Some (0, s)"
| "configure_etms E verbose (i # is) devices rng range_count pid s = do {
     (version, s) \<leftarrow> cs_int E (Cs_etm_get_version (ptm devices i)) s;
     if CS_ETMVERSION_MAJOR E version \<ge> CS_ETMVERSION_ETMv4 E then do {
       (r, s) \<leftarrow> configure_etmv4_addr_range_cid E verbose (ptm devices i) rng range_count
                   (size_t_of_int pid) s;
       if r \<noteq> 0 then Some (r, s)
       else configure_etms E verbose is devices rng range_count pid s
     } else configure_etms E verbose is devices rng range_count pid s
   }"

definition configure_trace ::
  "env \<Rightarrow> int \<Rightarrow> board_t option \<Rightarrow> cs_devices option \<Rightarrow> (nat \<Rightarrow> map_info) \<Rightarrow> nat \<Rightarrow> int \<Rightarrow>
   'z world_scheme \<Rightarrow> ((int \<times> cs_devices option) \<times> 'z world_scheme) option" where
  "configure_trace E verbose board devices rng range_count pid s =
     (case (board, devices) of
        (Some board, Some devices) \<Rightarrow> do {
          (_, s) \<leftarrow> cs_int E Cs_disable_tpiu s;
          (_, s) \<leftarrow> cs_int E (Cs_sink_disable (etb devices)) s;
          ((r, devices), s) \<leftarrow> configure_sources E [0..<n_cpu board] devices s;
          if r < 0 then Some ((-1, Some devices), s)
          else do {
            (r, s) \<leftarrow> cs_int E (Cs_set_trace_source_id (itm devices) 0x20) s;
            if r < 0 then Some ((-1, Some devices), s)
            else do {
              (_, s) \<leftarrow> cs_int E Cs_checkpoint s;
              (r, s) \<leftarrow> configure_etms E verbose [0..<n_cpu board] devices rng range_count pid s;
              if r \<noteq> 0 then Some ((r, Some devices), s)
              else do {
                (ffcr_val, s) \<leftarrow> ask (a_u32 E) (CS (Cs_device_read (etb devices) (CS_ETB_FLFMT_CTRL E))) s;
                let ffcr_val = ffcr_val OR CS_ETB_FLFMT_CTRL_StopFl E;
                (_, s) \<leftarrow> cs_int E (Cs_device_write (etb devices) (CS_ETB_FLFMT_CTRL E) ffcr_val) s;
                (error_count, s) \<leftarrow> cs_int E Cs_error_count s;
                if error_count > 0 then Some ((-1, Some devices), s) else Some ((0, Some devices), s)
              }
            }
          }
        }
      | _ \<Rightarrow> Some ((-1, devices), s))"

section \<open>Enabling and disabling\<close>

text \<open>The loop over the intermediate sinks (ETFs), shared by \<open>enable_trace\<close> and
  \<open>enable_trace_sinks_only\<close>; \<open>i\<close> runs over the remaining indices.\<close>

fun enable_etfs :: "env \<Rightarrow> nat list \<Rightarrow> cs_devices \<Rightarrow> 'z world_scheme \<Rightarrow> (int \<times> 'z world_scheme) option" where
  "enable_etfs E [] devices s = Some (0, s)"
| "enable_etfs E (i # is) devices s = do {
     (r, s) \<leftarrow> cs_int E (Cs_sink_etf_setup (trace_sinks devices i) (CS_TMC_MODE_HWFIFO E)) s;
     if r \<noteq> 0 then Some (-1, s)
     else do {
       (r, s) \<leftarrow> cs_int E (Cs_tmc_hw_fifo_enable (trace_sinks devices i) 0) s;
       if r \<noteq> 0 then Some (-1, s) else enable_etfs E is devices s
     }
   }"

fun for_each_device :: "env \<Rightarrow> (cs_device \<Rightarrow> cs_call) \<Rightarrow> cs_device list \<Rightarrow> 'z world_scheme \<Rightarrow>
  (unit \<times> 'z world_scheme) option" where
  "for_each_device E f [] s = Some ((), s)"
| "for_each_device E f (d # ds) s = do { (_, s) \<leftarrow> cs_int E (f d) s; for_each_device E f ds s }"

definition enable_trace ::
  "env \<Rightarrow> u64 \<Rightarrow> u64 \<Rightarrow> int \<Rightarrow> board_t option \<Rightarrow> cs_devices option \<Rightarrow> 'z world_scheme \<Rightarrow>
   (int \<times> 'z world_scheme) option" where
  "enable_trace E etr_ram_addr etr_ram_size verbose board devices s =
     (case (board, devices) of
        (Some board, Some devices) \<Rightarrow> do {
          (r, s) \<leftarrow> cs_int E (Cs_sink_etr_setup (etb devices) etr_ram_addr etr_ram_size (etr_axictl board)) s;
          if r \<noteq> 0 then Some (-1, s) else do {
          (r, s) \<leftarrow> cs_int E (Cs_sink_enable (etb devices)) s;
          if r \<noteq> 0 then Some (-1, s) else do {
          (r, s) \<leftarrow> (if tpiu devices \<noteq> 0 then cs_int E (Cs_sink_enable (tpiu devices)) s else Some (0, s));
          if r \<noteq> 0 then Some (-1, s) else do {
          (r, s) \<leftarrow> enable_etfs E [0..<num_trace_sinks devices] devices s;
          if r \<noteq> 0 then Some (-1, s) else do {
          (_, s) \<leftarrow> for_each_device E Cs_trace_enable (map (ptm devices) [0..<n_cpu board]) s;
          (r, s) \<leftarrow> cs_int E (Cs_trace_swstim_enable_all_ports (itm devices)) s;
          if r < 0 then Some (-1, s) else do {
          (r, s) \<leftarrow> cs_int E (Cs_trace_swstim_set_sync_repeat (itm devices) 32) s;
          if r < 0 then Some (-1, s) else do {
          (_, s) \<leftarrow> cs_int E (Cs_trace_enable (itm devices)) s;
          (_, s) \<leftarrow> cs_int E Cs_checkpoint s;
          (_, s) \<leftarrow> (if verbose > 0 then cs_int E Cs_cti_diag s else Some (0, s));
          (error_count, s) \<leftarrow> cs_int E Cs_error_count s;
          if error_count > 0 then Some (-1, s) else Some (0, s)
        }}}}}}}
      | _ \<Rightarrow> Some (-1, s))"

fun show_etm_configs :: "env \<Rightarrow> cs_device list \<Rightarrow> 'z world_scheme \<Rightarrow> (unit \<times> 'z world_scheme) option" where
  "show_etm_configs E [] s = Some ((), s)"
| "show_etm_configs E (d # ds) s = do { (_, s) \<leftarrow> show_etm_config E d s; show_etm_configs E ds s }"

text \<open>The non-null intermediate sinks, in index order.\<close>

definition live_sinks :: "cs_devices \<Rightarrow> cs_device list" where
  "live_sinks devices = filter (\<lambda>d. d \<noteq> 0) (map (trace_sinks devices) [0..<num_trace_sinks devices])"

definition disable_trace ::
  "env \<Rightarrow> int \<Rightarrow> board_t option \<Rightarrow> cs_devices option \<Rightarrow> 'z world_scheme \<Rightarrow> (int \<times> 'z world_scheme) option" where
  "disable_trace E verbose board devices s =
     (case (board, devices) of
        (Some board, Some devices) \<Rightarrow> do {
          (_, s) \<leftarrow> cs_etb_flush_and_wait_stop E devices s;
          (_, s) \<leftarrow> for_each_device E Cs_trace_disable (map (ptm devices) [0..<n_cpu board]) s;
          (_, s) \<leftarrow> cs_int E (Cs_trace_disable (itm devices)) s;
          (_, s) \<leftarrow> for_each_device E Cs_sink_disable (live_sinks devices) s;
          (_, s) \<leftarrow> cs_int E (Cs_sink_disable (etb devices)) s;
          (r, s) \<leftarrow> (if tpiu devices \<noteq> 0 then cs_int E (Cs_sink_disable (tpiu devices)) s else Some (0, s));
          if r \<noteq> 0 then Some (-1, s) else do {
          (_, s) \<leftarrow> (if verbose > 1 then show_etm_configs E (map (ptm devices) [0..<n_cpu board]) s
                     else Some ((), s));
          (error_count, s) \<leftarrow> cs_int E Cs_error_count s;
          if error_count > 0 then Some (-1, s) else Some (0, s)
        }}
      | _ \<Rightarrow> Some (-1, s))"

definition enable_trace_sinks_only ::
  "env \<Rightarrow> board_t option \<Rightarrow> cs_devices option \<Rightarrow> 'z world_scheme \<Rightarrow> (int \<times> 'z world_scheme) option" where
  "enable_trace_sinks_only E board devices s =
     (case devices of
        Some devices \<Rightarrow> do {
          (r, s) \<leftarrow> cs_int E (Cs_sink_enable (etb devices)) s;
          if r \<noteq> 0 then Some (-1, s) else do {
          (r, s) \<leftarrow> (if tpiu devices \<noteq> 0 then cs_int E (Cs_sink_enable (tpiu devices)) s else Some (0, s));
          if r \<noteq> 0 then Some (-1, s) else do {
          (r, s) \<leftarrow> enable_etfs E [0..<num_trace_sinks devices] devices s;
          if r \<noteq> 0 then Some (-1, s) else do {
          (_, s) \<leftarrow> cs_int E Cs_checkpoint s;
          (error_count, s) \<leftarrow> cs_int E Cs_error_count s;
          if error_count > 0 then Some (-1, s) else Some (0, s)
        }}}}
      | None \<Rightarrow> Some (-1, s))"

definition disable_trace_sinks_only ::
  "env \<Rightarrow> cs_devices option \<Rightarrow> 'z world_scheme \<Rightarrow> (int \<times> 'z world_scheme) option" where
  "disable_trace_sinks_only E devices s =
     (case devices of
        Some devices \<Rightarrow> do {
          (_, s) \<leftarrow> cs_etb_flush_and_wait_stop E devices s;
          (r, s) \<leftarrow> (if tpiu devices \<noteq> 0 then cs_int E (Cs_sink_disable (tpiu devices)) s else Some (0, s));
          if r \<noteq> 0 then Some (-1, s) else do {
          (_, s) \<leftarrow> for_each_device E Cs_sink_disable (live_sinks devices) s;
          (_, s) \<leftarrow> cs_int E (Cs_sink_disable (etb devices)) s;
          (error_count, s) \<leftarrow> cs_int E Cs_error_count s;
          if error_count > 0 then Some (-1, s) else Some (0, s)
        }}
      | None \<Rightarrow> Some (-1, s))"

section \<open>Every operation only makes calls\<close>

lemma appends_flush: "appends s (cs_etb_flush_and_wait_stop E devices s)"
  unfolding cs_etb_flush_and_wait_stop_def by (intro appends_rules)

lemma appends_show_etm_config: "appends s (show_etm_config E etm s)"
  unfolding show_etm_config_def by (intro appends_rules)

lemma appends_configure_etmv4:
  "appends s (configure_etmv4_addr_range_cid E v etm rng n cid s)"
  unfolding configure_etmv4_addr_range_cid_def by (intro appends_rules appends_show_etm_config)

lemma appends_init_etm: "appends s (init_etm E dev s)"
  unfolding init_etm_def by (intro appends_rules)

lemma appends_configure_sources: "appends s (configure_sources E is devices s)"
proof (induction "is" arbitrary: devices s)
  case Nil
  then show ?case by (simp add: appends_Some)
next
  case (Cons i "is")
  show ?case
    unfolding configure_sources.simps by (intro appends_rules appends_init_etm Cons.IH)
qed

lemma appends_configure_etms: "appends s (configure_etms E v is devices rng n pid s)"
proof (induction "is" arbitrary: s)
  case Nil
  then show ?case by (simp add: appends_Some)
next
  case (Cons i "is")
  show ?case
    unfolding configure_etms.simps by (intro appends_rules appends_configure_etmv4 Cons.IH)
qed

lemma appends_configure_trace: "appends s (configure_trace E v board devices rng n pid s)"
  unfolding configure_trace_def
  by (cases board; cases devices; simp only: prod.case option.case)
    (intro appends_rules appends_configure_sources appends_configure_etms)+

section \<open>Refinement of the enabling operations\<close>

definition etf_script :: "env \<Rightarrow> cs_devices \<Rightarrow> nat list \<Rightarrow> script" where
  "etf_script E devices is = concat (map (\<lambda>i.
     [(CS (Cs_sink_etf_setup (trace_sinks devices i) (CS_TMC_MODE_HWFIFO E)), is_zero),
      (CS (Cs_tmc_hw_fifo_enable (trace_sinks devices i) 0), is_zero)]) is)"

definition each_script :: "(cs_device \<Rightarrow> cs_call) \<Rightarrow> cs_device list \<Rightarrow> script" where
  "each_script f ds = map (\<lambda>d. (CS (f d), any_result)) ds"

definition tpiu_script :: "(cs_device \<Rightarrow> cs_call) \<Rightarrow> cs_devices \<Rightarrow> script" where
  "tpiu_script f devices = (if tpiu devices \<noteq> 0 then [(CS (f (tpiu devices)), is_zero)] else [])"

definition enable_sinks_script :: "env \<Rightarrow> cs_devices \<Rightarrow> script" where
  "enable_sinks_script E devices =
     [(CS (Cs_sink_enable (etb devices)), is_zero)] @ tpiu_script Cs_sink_enable devices
     @ etf_script E devices [0..<num_trace_sinks devices]"

definition enable_script :: "env \<Rightarrow> u64 \<Rightarrow> u64 \<Rightarrow> int \<Rightarrow> board_t \<Rightarrow> cs_devices \<Rightarrow> script" where
  "enable_script E addr sz verbose board devices =
     [(CS (Cs_sink_etr_setup (etb devices) addr sz (etr_axictl board)), is_zero)]
     @ enable_sinks_script E devices
     @ each_script Cs_trace_enable (map (ptm devices) [0..<n_cpu board])
     @ [(CS (Cs_trace_swstim_enable_all_ports (itm devices)), not_neg),
        (CS (Cs_trace_swstim_set_sync_repeat (itm devices) 32), not_neg),
        (CS (Cs_trace_enable (itm devices)), any_result),
        (CS Cs_checkpoint, any_result)]
     @ (if verbose > 0 then [(CS Cs_cti_diag, any_result)] else [])
     @ [(CS Cs_error_count, no_errors)]"

lemma enable_etfs_script: "enable_etfs E is devices s = script_result E (etf_script E devices is) s"
proof (induction "is" arbitrary: s)
  case Nil
  then show ?case by (simp add: etf_script_def script_result_simps)
next
  case (Cons i "is")
  have "etf_script E devices (i # is) =
      (CS (Cs_sink_etf_setup (trace_sinks devices i) (CS_TMC_MODE_HWFIFO E)), is_zero) #
      (CS (Cs_tmc_hw_fifo_enable (trace_sinks devices i) 0), is_zero) # etf_script E devices is"
    by (simp add: etf_script_def)
  then show ?case
    by (simp add: script_result_Cons Cons.IH ask_defs check_defs)
qed

lemma for_each_device_script:
  "script_result E (each_script f ds @ cs) s =
     do { (_, s) \<leftarrow> for_each_device E f ds s; script_result E cs s }"
  by (induction ds arbitrary: s) (simp_all add: each_script_def script_result_Cons ask_defs check_defs)

lemma tpiu_step_script:
  "script_result E (tpiu_script f devices @ cs) s =
     do { (r, s) \<leftarrow> (if tpiu devices \<noteq> 0 then cs_int E (f (tpiu devices)) s else Some (0, s));
          if r \<noteq> 0 then Some (-1, s) else script_result E cs s }"
  by (simp add: tpiu_script_def script_result_Cons ask_defs check_defs)

lemma enable_etfs_step_script:
  "script_result E (etf_script E devices is @ cs) s =
     do { (r, s) \<leftarrow> enable_etfs E is devices s;
          if r \<noteq> 0 then Some (-1, s) else script_result E cs s }"
  by (simp only: enable_etfs_script script_result_append)

lemmas to_script =
  append_assoc append_Cons append_Nil script_result_Nil script_result_Cons
  for_each_device_script tpiu_step_script enable_etfs_step_script check_ifs

lemma enable_trace_script:
  "enable_trace E addr sz v (Some board) (Some devices) s =
     script_result E (enable_script E addr sz v board devices) s"
  unfolding enable_trace_def enable_script_def enable_sinks_script_def
  by (cases "v > 0") (simp_all only: to_script if_True if_False not_False_eq_True bind.bind_lunit
      prod.case option.case cong del: if_weak_cong)

lemma enable_trace_sinks_only_script:
  "enable_trace_sinks_only E board (Some devices) s =
     script_result E (enable_sinks_script E devices
       @ [(CS Cs_checkpoint, any_result), (CS Cs_error_count, no_errors)]) s"
  unfolding enable_trace_sinks_only_def enable_sinks_script_def
  by (simp only: to_script option.case cong del: if_weak_cong)

section \<open>Refinement of the disabling operations\<close>

definition flush_calls :: "env \<Rightarrow> cs_devices \<Rightarrow> call list \<Rightarrow> call list" where
  "flush_calls E devices h =
     (let is_en = CS (Cs_sink_is_enabled (etb devices));
          read = CS (Cs_device_read (etb devices) (CS_ETB_FLFMT_CTRL E))
      in is_en # (if a_int E h is_en \<noteq> 0 then
           [read,
            CS (Cs_device_write (etb devices) (CS_ETB_FLFMT_CTRL E)
                 (a_u32 E (h @ [is_en]) read OR CS_ETB_FLFMT_CTRL_FOnMan E)),
            CS (Cs_device_wait (etb devices) (CS_ETB_STATUS E) (CS_ETB_STATUS_FtEmpty E))]
         else []))"

lemma flush_eq:
  "cs_etb_flush_and_wait_stop E devices s =
     Some ((), s\<lparr>hist := hist s @ flush_calls E devices (hist s)\<rparr>)"
  by (simp add: cs_etb_flush_and_wait_stop_def flush_calls_def ask_defs Let_def)

definition disable_sources_script :: "board_t \<Rightarrow> cs_devices \<Rightarrow> script" where
  "disable_sources_script board devices =
     each_script Cs_trace_disable (map (ptm devices) [0..<n_cpu board])
     @ [(CS (Cs_trace_disable (itm devices)), any_result)]"

definition disable_sinks_script :: "cs_devices \<Rightarrow> script" where
  "disable_sinks_script devices =
     each_script Cs_sink_disable (live_sinks devices)
     @ [(CS (Cs_sink_disable (etb devices)), any_result)]"

lemma disable_trace_script:
  "v \<le> 1 \<Longrightarrow> disable_trace E v (Some board) (Some devices) s =
     script_result E (disable_sources_script board devices @ disable_sinks_script devices
       @ tpiu_script Cs_sink_disable devices @ [(CS Cs_error_count, no_errors)])
       (s\<lparr>hist := hist s @ flush_calls E devices (hist s)\<rparr>)"
  unfolding disable_trace_def disable_sources_script_def disable_sinks_script_def
  by (simp only: to_script option.case prod.case flush_eq bind.bind_lunit if_False not_less [symmetric]
      cong del: if_weak_cong)

lemma disable_trace_sinks_only_script:
  "disable_trace_sinks_only E (Some devices) s =
     script_result E (tpiu_script Cs_sink_disable devices @ disable_sinks_script devices
       @ [(CS Cs_error_count, no_errors)])
       (s\<lparr>hist := hist s @ flush_calls E devices (hist s)\<rparr>)"
  unfolding disable_trace_sinks_only_def disable_sinks_script_def
  by (simp only: to_script option.case prod.case flush_eq bind.bind_lunit cong del: if_weak_cong)

section \<open>Trace source identifiers\<close>

lemma appends_mono: "appends s m \<Longrightarrow> m = Some (r, s') \<Longrightarrow> c \<in> set (hist s) \<Longrightarrow> c \<in> set (hist s')"
  by (auto elim!: appendsE)

text \<open>What the first loop has done when it ends without an error: it has only written the entries
  of \<open>ptm\<close> that it runs over, each now holds a valid descriptor, and that descriptor was given
  the identifier of its CPU.\<close>

definition sources_identified :: "env \<Rightarrow> nat list \<Rightarrow> cs_devices \<Rightarrow> cs_devices \<Rightarrow> call list \<Rightarrow> bool" where
  "sources_identified E is devices devices' h \<longleftrightarrow>
     devices' = devices\<lparr>ptm := ptm devices'\<rparr> \<and>
     (\<forall>j. j \<notin> set is \<longrightarrow> ptm devices' j = ptm devices j) \<and>
     (\<forall>i \<in> set is. ptm devices' i \<noteq> CS_ERRDESC E \<and>
        CS (Cs_set_trace_source_id (ptm devices' i) (0x10 + int i)) \<in> set h)"

lemma configure_sources_ok:
  assumes "configure_sources E is devices s = Some ((r, devices'), s')" and "\<not> r < 0" and "distinct is"
  shows "sources_identified E is devices devices' (hist s')"
  using assms
proof (induction "is" arbitrary: devices s)
  case Nil
  then show ?case by (simp add: sources_identified_def)
next
  case (Cons i "is")
  let ?d = "a_dev E (hist s) (CS (Cs_cpu_get_device i))"
  let ?devices = "devices\<lparr>ptm := (ptm devices)(i := ?d)\<rparr>"
  let ?s = "s\<lparr>hist := hist s @ [CS (Cs_cpu_get_device i), CS (Cs_set_trace_source_id ?d (0x10 + int i))]\<rparr>"
  from Cons.prems(1,2) obtain r1 s1
    where d: "?d \<noteq> CS_ERRDESC E" and e: "init_etm E ?d ?s = Some (r1, s1)"
      and rest: "configure_sources E is ?devices s1 = Some ((r, devices'), s')"
    by (auto simp: ask_defs Let_def bind_eq_Some_conv split: if_splits)
  have "sources_identified E is ?devices devices' (hist s')"
    using Cons.IH [OF rest Cons.prems(2)] Cons.prems(3) by simp
  moreover have "CS (Cs_set_trace_source_id ?d (0x10 + int i)) \<in> set (hist s')"
    by (rule appends_mono [OF appends_configure_sources rest])
      (rule appends_mono [OF appends_init_etm e], simp)
  ultimately show ?case
    using d Cons.prems(3) by (auto simp: sources_identified_def)
qed

lemma configure_trace_steps:
  assumes "configure_trace E v (Some board) (Some devices) rng n pid s = Some ((0, dv), s')"
  obtains r devices' s1 s2 where
    "configure_sources E [0..<n_cpu board] devices
       (s\<lparr>hist := hist s @ [CS Cs_disable_tpiu, CS (Cs_sink_disable (etb devices))]\<rparr>)
     = Some ((r, devices'), s1)" and "\<not> r < 0" and "dv = Some devices'"
    and "configure_etms E v [0..<n_cpu board] devices' rng n pid
       (s1\<lparr>hist := hist s1 @ [CS (Cs_set_trace_source_id (itm devices') 0x20), CS Cs_checkpoint]\<rparr>)
     = Some (0, s2)"
    and "hist s' = hist s2 @ [CS (Cs_device_read (etb devices') (CS_ETB_FLFMT_CTRL E)),
       CS (Cs_device_write (etb devices') (CS_ETB_FLFMT_CTRL E)
         (a_u32 E (hist s2) (CS (Cs_device_read (etb devices') (CS_ETB_FLFMT_CTRL E))) OR CS_ETB_FLFMT_CTRL_StopFl E)),
       CS Cs_error_count]"
proof -
  let ?s = "s\<lparr>hist := hist s @ [CS Cs_disable_tpiu, CS (Cs_sink_disable (etb devices))]\<rparr>"
  obtain r d s1 where c: "configure_sources E [0..<n_cpu board] devices ?s = Some ((r, d), s1)"
    using assms by (auto simp: configure_trace_def ask_defs bind_eq_Some_conv)
  with assms have r: "\<not> r < 0" by (auto simp: configure_trace_def ask_defs)
  let ?s1 = "s1\<lparr>hist := hist s1 @ [CS (Cs_set_trace_source_id (itm d) 0x20), CS Cs_checkpoint]\<rparr>"
  obtain r2 s2 where e: "configure_etms E v [0..<n_cpu board] d rng n pid ?s1 = Some (r2, s2)"
    using assms c r by (auto simp: configure_trace_def ask_defs bind_eq_Some_conv split: if_splits)
  with assms c r have "r2 = 0" by (auto simp: configure_trace_def ask_defs split: if_splits)
  with e have e: "configure_etms E v [0..<n_cpu board] d rng n pid ?s1 = Some (0, s2)" by simp
  show thesis by (rule that [OF c r _ e]) (use assms c r e in \<open>auto simp: configure_trace_def ask_defs Let_def split: if_splits\<close>)
qed

lemma configure_trace_ok:
  assumes "configure_trace E v (Some board) (Some devices) rng n pid s = Some ((0, dv), s')"
  obtains devices' where "dv = Some devices'"
    and "sources_identified E [0..<n_cpu board] devices devices' (hist s')"
    and "CS (Cs_set_trace_source_id (itm devices) 0x20) \<in> set (hist s')"
proof -
  from configure_trace_steps [OF assms] obtain r devices' s1 s2 where
      c: "configure_sources E [0..<n_cpu board] devices
           (s\<lparr>hist := hist s @ [CS Cs_disable_tpiu, CS (Cs_sink_disable (etb devices))]\<rparr>)
         = Some ((r, devices'), s1)" and r: "\<not> r < 0" and dv: "dv = Some devices'"
    and e: "configure_etms E v [0..<n_cpu board] devices' rng n pid
           (s1\<lparr>hist := hist s1 @ [CS (Cs_set_trace_source_id (itm devices') 0x20), CS Cs_checkpoint]\<rparr>)
         = Some (0, s2)"
    and tl: "hist s' = hist s2 @ [CS (Cs_device_read (etb devices') (CS_ETB_FLFMT_CTRL E)),
       CS (Cs_device_write (etb devices') (CS_ETB_FLFMT_CTRL E)
         (a_u32 E (hist s2) (CS (Cs_device_read (etb devices') (CS_ETB_FLFMT_CTRL E))) OR CS_ETB_FLFMT_CTRL_StopFl E)),
       CS Cs_error_count]" .
  have sub: "set (hist s2) \<subseteq> set (hist s')" using tl by auto
  note mono = appends_mono [OF appends_configure_etms e]
  have src: "sources_identified E [0..<n_cpu board] devices devices' (hist s1)"
    by (rule configure_sources_ok [OF c r]) simp
  then have "itm devices' = itm devices"
    by (metis sources_identified_def cs_devices.select_convs(3) cs_devices.surjective
        cs_devices.update_convs(5))
  with mono sub have "CS (Cs_set_trace_source_id (itm devices) 0x20) \<in> set (hist s')" by auto
  moreover from src mono sub have "sources_identified E [0..<n_cpu board] devices devices' (hist s')"
    by (fastforce simp: sources_identified_def)
  ultimately show thesis using dv that by blast
qed

section \<open>What the ETM is told to filter\<close>

text \<open>The 64-bit value that a pair of 32-bit comparator registers holds.\<close>

definition reg_pair :: "u32 \<Rightarrow> u32 \<Rightarrow> u64" where
  "reg_pair h l = push_bit 32 (ucast h) OR ucast l"

lemma reg_pair_split:
  "reg_pair (ucast (drop_bit 32 x AND 0xFFFFFFFF)) (ucast (x AND 0xFFFFFFFF)) = (x :: u64)"
proof -
  have m: "(0xFFFFFFFF :: u64) = mask 32" by (simp add: mask_eq_exp_minus_1)
  show ?thesis
    unfolding reg_pair_def m by (simp add: bit_eq_iff bit_simps) (auto simp: not_less)
qed

text \<open>The access type of the comparators: only the user level of the non-secure state is left.\<close>

definition excluded_levels :: "env \<Rightarrow> u32" where
  "excluded_levels E = CS_ETMV4_ACATR_ExEL0_S E OR CS_ETMV4_ACATR_ExEL1_S E OR CS_ETMV4_ACATR_ExEL2_S E OR
     CS_ETMV4_ACATR_ExEL1_NS E OR CS_ETMV4_ACATR_ExEL2_NS E"

text \<open>All bits of \<open>m\<close> are set.\<close>

definition has_flags :: "u32 \<Rightarrow> u32 \<Rightarrow> bool" where
  "has_flags w m \<longleftrightarrow> w AND m = m"

text \<open>A configuration that makes the ETM trace the range \<open>r\<close> only and, if \<open>cid\<close> is not zero, the context \<open>cid\<close> only: the
  values of the comparators, the bits that switch them on, and the flags without which CSAL would not write
  them to the device.\<close>

definition filters :: "env \<Rightarrow> map_info \<Rightarrow> u64 \<Rightarrow> etmv4_config \<Rightarrow> bool" where
  "filters E r cid cfg \<longleftrightarrow>
     has_flags (flags cfg) (CS_ETMC_ADDR_COMP E) \<and> (cid \<noteq> 0 \<longrightarrow> has_flags (flags cfg) (CS_ETMC_CXID_COMP E)) \<and>
     reg_pair (acvr_h (addr_comps cfg 0)) (acvr_l (addr_comps cfg 0)) = mi_start r \<and>
     reg_pair (acvr_h (addr_comps cfg 1)) (acvr_l (addr_comps cfg 1)) = mi_end r \<and>
     (\<forall>i < 2. acatr_l (addr_comps cfg i) = excluded_levels E OR (if cid = 0 then 0 else 4)) \<and>
     bit (addr_comps_acc_mask cfg) 0 \<and> bit (addr_comps_acc_mask cfg) 1 \<and> bit (viiectlr cfg) 0 \<and>
     configr_bb cfg = 1 \<and> configr_cid cfg = (if cid \<noteq> 0 \<and> idr2_cidsize cfg \<noteq> 0 then 1 else 0) \<and>
     (cid \<noteq> 0 \<longrightarrow> reg_pair (cidcvr_h (cxid_comps cfg 0)) (cidcvr_l (cxid_comps cfg 0)) = cid \<and>
        \<not> bit (cidcctlr0 cfg) 0 \<and> bit (cxid_comps_acc_mask cfg) 0)"

lemma has_flags_OR [simp]:
  "has_flags (w OR m) m" "has_flags w m \<Longrightarrow> has_flags (w OR n) m" "has_flags (w OR (m OR n)) m" "has_flags (w OR (n OR m)) m"
  unfolding has_flags_def by (auto simp: bit_eq_iff bit_simps)

lemma comparators_filter:
  "filters E r cid (etmv4_address_comparator E r cid (etmv4_context_comparator E cid (etmv4_features cid cfg)))"
proof -
  have "i = 0 \<or> i = 1" if "i < 2" for i :: nat using that by auto
  then show ?thesis
    by (auto simp: filters_def etmv4_address_comparator_def etmv4_context_comparator_def etmv4_features_def excluded_levels_def
        set_etmv4_addr_range_def reg_pair_split return_stack_def branch_broadcast_def cycle_count_def
        Let_def word_gt_0 bit_simps or.assoc)
qed

text \<open>The configuration that an ETM was given last.\<close>

fun put_config :: "cs_device \<Rightarrow> call \<Rightarrow> etmv4_config option" where
  "put_config d (CS (Cs_etm_config_put_ex e cfg)) = (if e = d then Some cfg else None)"
| "put_config d c = None"

fun last_config :: "cs_device \<Rightarrow> call list \<Rightarrow> etmv4_config option" where
  "last_config d [] = None"
| "last_config d (c # cs) = (case last_config d cs of None \<Rightarrow> put_config d c | Some cfg \<Rightarrow> Some cfg)"

lemma last_config_append:
  "last_config d (h @ cs) = (case last_config d cs of None \<Rightarrow> last_config d h | Some cfg \<Rightarrow> Some cfg)"
  by (induction h) (auto split: option.split)

lemma last_config_no_put: "\<forall>c \<in> set cs. put_config d c = None \<Longrightarrow> last_config d cs = None"
  by (induction cs) auto

text \<open>What \<open>configure_etmv4_addr_range_cid\<close> does to the ETMs: one configuration, which filters, for the given one.\<close>

lemma show_etm_config_no_put:
  "show_etm_config E etm s = Some (u, s') \<Longrightarrow> \<exists>cs. hist s' = hist s @ cs \<and> last_config d cs = None"
  by (auto simp: show_etm_config_def ask_defs split: if_splits)

lemma configure_etmv4_puts:
  assumes "configure_etmv4_addr_range_cid E v etm rng n cid s = Some (r, s')"
  shows "\<exists>cs cfg. s' = s\<lparr>hist := hist s @ cs\<rparr> \<and> filters E (rng 0) cid cfg \<and>
     (\<forall>d. last_config d cs = (if d = etm then Some cfg else None))"
proof -
  define get where "get = CS (Cs_etm_config_get_ex etm ((a_cfg E (hist s) (CS (Cs_etm_config_init_ex etm)))
    \<lparr>flags := CS_ETMC_TRACE_ENABLE E OR CS_ETMC_CONFIG E OR CS_ETMC_EVENTSELECT E\<rparr>))"
  define cfg where "cfg = etmv4_address_comparator E (rng 0) cid (etmv4_context_comparator E cid
    (etmv4_features cid (a_cfg E (hist s @ [CS (Cs_etm_config_init_ex etm)]) get)))"
  let ?cs = "[CS (Cs_etm_config_init_ex etm), get, CS (Cs_etm_config_put_ex etm cfg)]"
  define s1 where "s1 = s\<lparr>hist := hist s @ ?cs\<rparr>"
  let ?show = "if v > 0 then show_etm_config E etm s1 else Some ((), s1)"
  have run: "configure_etmv4_addr_range_cid E v etm rng n cid s =
      do { (_, s) \<leftarrow> ?show; (error_count, s) \<leftarrow> cs_int E Cs_error_count s;
           if error_count > 0 then Some (-1, s) else Some (0 :: int, s) }"
    by (cases "v > 0")
      (simp_all add: configure_etmv4_addr_range_cid_def ask_defs Let_def s1_def cfg_def get_def)
  with assms obtain t where t: "?show = Some ((), t)" "s' = t\<lparr>hist := hist t @ [CS Cs_error_count]\<rparr>"
    by (auto simp: ask_defs bind_eq_Some_conv split: if_splits)
  obtain ds where ds: "t = s1\<lparr>hist := hist s1 @ ds\<rparr>" "\<forall>d. last_config d ds = None"
  proof (cases "v > 0")
    case True
    with t(1) have sh: "show_etm_config E etm s1 = Some ((), t)" by simp
    obtain ds where "t = s1\<lparr>hist := hist s1 @ ds\<rparr>" by (rule appendsE [OF appends_show_etm_config sh])
    moreover from this show_etm_config_no_put [OF sh] have "last_config d ds = None" for d by fastforce
    ultimately show thesis using that by blast
  next
    case False
    with t(1) show thesis by (intro that [of "[]"]) simp_all
  qed
  have "last_config d (?cs @ ds @ [CS Cs_error_count]) = (if d = etm then Some cfg else None)" for d
    using ds(2) by (simp add: last_config_append get_def)
  moreover have "s' = s\<lparr>hist := hist s @ (?cs @ ds @ [CS Cs_error_count])\<rparr>" using t(2) ds(1) by (simp add: s1_def)
  moreover have "filters E (rng 0) cid cfg" unfolding cfg_def by (rule comparators_filter)
  ultimately show ?thesis by blast
qed

text \<open>All sources answer that they are ETMv4 devices.\<close>

definition all_etmv4 :: "env \<Rightarrow> bool" where
  "all_etmv4 E \<longleftrightarrow>
     (\<forall>h d. CS_ETMVERSION_MAJOR E (a_int E h (CS (Cs_etm_get_version d))) \<ge> CS_ETMVERSION_ETMv4 E)"

text \<open>The second loop gives filtering configurations only, and one to each of its ETMs.\<close>

lemma configure_etms_puts:
  assumes "configure_etms E v is devices rng n pid s = Some (0, s')"
  shows "\<exists>cs. s' = s\<lparr>hist := hist s @ cs\<rparr> \<and> (\<forall>d cfg. last_config d cs = Some cfg \<longrightarrow> filters E (rng 0) (size_t_of_int pid) cfg) \<and>
     (all_etmv4 E \<longrightarrow> (\<forall>i \<in> set is. last_config (ptm devices i) cs \<noteq> None))"
  using assms
proof (induction "is" arbitrary: s)
  case Nil
  then show ?case by (intro exI [of _ "[]"]) simp
next
  case (Cons k "is")
  let ?v = "CS (Cs_etm_get_version (ptm devices k))"
  let ?s = "s\<lparr>hist := hist s @ [?v]\<rparr>"
  let ?c = "configure_etmv4_addr_range_cid E v (ptm devices k) rng n (size_t_of_int pid) ?s"
  show ?case
  proof (cases "CS_ETMVERSION_MAJOR E (a_int E (hist s) ?v) \<ge> CS_ETMVERSION_ETMv4 E")
    case True
    with Cons.prems obtain s2 where c: "?c = Some (0, s2)"
      and rest: "configure_etms E v is devices rng n pid s2 = Some (0, s')"
      by (auto simp: ask_defs bind_eq_Some_conv split: if_splits)
    from configure_etmv4_puts [OF c] obtain cs cfg where cs: "s2 = ?s\<lparr>hist := hist ?s @ cs\<rparr>"
      "filters E (rng 0) (size_t_of_int pid) cfg" "\<And>d. last_config d cs = (if d = ptm devices k then Some cfg else None)" by blast
    from Cons.IH [OF rest] obtain ds where ds: "s' = s2\<lparr>hist := hist s2 @ ds\<rparr>"
      "\<And>d cfg. last_config d ds = Some cfg \<Longrightarrow> filters E (rng 0) (size_t_of_int pid) cfg"
      "all_etmv4 E \<Longrightarrow> i \<in> set is \<Longrightarrow> last_config (ptm devices i) ds \<noteq> None" for i by blast
    have "last_config d (?v # cs @ ds) = (case last_config d ds of None \<Rightarrow> last_config d cs | Some cfg \<Rightarrow> Some cfg)" for d
      by (simp add: last_config_append split: option.split)
    with cs ds show ?thesis
      by (intro exI [of _ "?v # cs @ ds"]) (auto split: option.splits if_splits)
  next
    case False
    then have na: "\<not> all_etmv4 E" by (auto simp: all_etmv4_def)
    from Cons.prems False have "configure_etms E v is devices rng n pid ?s = Some (0, s')" by (simp add: ask_defs)
    from Cons.IH [OF this] na obtain cs where "s' = ?s\<lparr>hist := hist ?s @ cs\<rparr>"
      "\<forall>d cfg. last_config d cs = Some cfg \<longrightarrow> filters E (rng 0) (size_t_of_int pid) cfg" by blast
    with na show ?thesis by (intro exI [of _ "?v # cs"]) (auto split: option.splits)
  qed
qed

section \<open>The operations as instances of the contract\<close>

lemma appends_after_calls:
  "appends (s\<lparr>hist := hist s @ cs\<rparr>) m \<Longrightarrow> appends s m"
proof (rule appendsI)
  fix r s' assume "appends (s\<lparr>hist := hist s @ cs\<rparr>) m" and "m = Some (r, s')"
  then show "\<exists>cs. s' = s\<lparr>hist := hist s @ cs\<rparr>" by (auto elim!: appendsE)
qed

lemma script_result_code: "script_result E cs s = Some (r, s') \<Longrightarrow> r = 0 \<or> r = -1"
  by (auto simp: script_result_def split: prod.splits if_splits)

lemma script_result_total: "script_result E cs s \<noteq> None"
  by (simp add: script_result_def split: prod.split)

interpretation et: csal_total_operation "\<lambda>E. enable_trace E addr sz v (Some board) (Some devices)"
  for addr sz v board devices
  by (unfold_locales; unfold enable_trace_script)
    (rule appends_script_result, erule script_result_code, rule script_result_total)

interpretation es: csal_total_operation "\<lambda>E. enable_trace_sinks_only E board (Some devices)"
  for board devices
  by (unfold_locales; unfold enable_trace_sinks_only_script)
    (rule appends_script_result, erule script_result_code, rule script_result_total)

interpretation ds: csal_total_operation "\<lambda>E. disable_trace_sinks_only E (Some devices)"
  for devices
  by (unfold_locales; unfold disable_trace_sinks_only_script)
    (rule appends_after_calls [OF appends_script_result], erule script_result_code,
     rule script_result_total)

interpretation dt: csal_total_operation "\<lambda>E. disable_trace E 0 (Some board) (Some devices)"
  for board devices
  by (unfold_locales; unfold disable_trace_script [OF zero_le_one])
    (rule appends_after_calls [OF appends_script_result], erule script_result_code,
     rule script_result_total)

section \<open>Properties\<close>

text \<open>C14. \<open>enable_trace\<close> implements the script \<open>enable_script\<close>: it always returns; with 0 exactly when
  every checked answer is good, and then it has made all the calls of the script in order; otherwise
  with \<open>-1\<close> right after the first call whose answer is bad.\<close>

theorem enable_trace_refines_script:
  "returns (enable_trace E addr sz v (Some board) (Some devices) s) (\<lambda>r s'.
     let cs = enable_script E addr sz v board devices in
     if r = 0 then s' = s\<lparr>hist := hist s @ map fst cs\<rparr>
     else r = -1 \<and> (\<exists>n < length cs. s' = s\<lparr>hist := hist s @ map fst (take (Suc n) cs)\<rparr> \<and>
            \<not> snd (cs ! n) (a_int E (hist s @ map fst (take n cs)) (fst (cs ! n)))))"
proof -
  let ?cs = "enable_script E addr sz v board devices"
  show ?thesis
    unfolding enable_trace_script Let_def
    by (rule script_result_cases [of E ?cs s]) auto
qed

lemma sources_enabled_after_prefix:
  assumes "run_script E (pre @ post) h = (ok, h @ new)"
    and "c \<in> set new" and "c \<notin> set (map fst pre)"
  shows "prefix (map fst pre) new \<and> run_script E pre h = (True, h @ map fst pre)"
proof (cases "run_script E pre h")
  case (Pair ok1 h1)
  show ?thesis
  proof (cases ok1)
    case True
    with Pair have "run_script E pre h = (True, h1)" by simp
    then have h1: "h1 = h @ map fst pre" by (rule run_script_success)
    from run_script_extends [of E post h1] assms(1) Pair True h1 show ?thesis
      by (auto simp: run_script_append)
  next
    case False
    with Pair assms(1) have "h1 = h @ new" by (simp add: run_script_append)
    with run_script_extends [of E pre h] Pair have "prefix new (map fst pre)" by auto
    then have "set new \<subseteq> set (map fst pre)" by (rule set_mono_prefix)
    with assms(2,3) show ?thesis by blast
  qed
qed

text \<open>C2. Sinks before sources: whatever the outcome of \<open>enable_trace\<close>, if it has enabled a trace source
  at all, then before that the whole trace path was set up and enabled successfully: ETR set-up and
  enable, TPIU if present, and both calls for every ETF.\<close>

theorem enable_trace_sinks_before_sources:
  assumes "enable_trace E addr sz v (Some board) (Some devices) s = Some (r, s')"
    and "hist s' = hist s @ new" and "CS (Cs_trace_enable d) \<in> set new"
    and "path = (CS (Cs_sink_etr_setup (etb devices) addr sz (etr_axictl board)), is_zero)
                # enable_sinks_script E devices"
  shows "prefix (map fst path) new \<and> fst (run_script E path (hist s))"
proof -
  obtain post where cs: "enable_script E addr sz v board devices = path @ post"
    by (auto simp: enable_script_def assms(4))
  from assms(1,2) have "\<exists>ok. run_script E (path @ post) (hist s) = (ok, hist s @ new)"
    by (auto simp: enable_trace_script script_result_def cs split: prod.splits)
  moreover have "CS (Cs_trace_enable d) \<notin> set (map fst path)"
    by (auto simp: assms(4) enable_sinks_script_def tpiu_script_def etf_script_def)
  ultimately show ?thesis
    using assms(3) sources_enabled_after_prefix by fastforce
qed


text \<open>\<open>disable_trace_sinks_only\<close> is weaker when a TPIU is present: if the TPIU cannot be disabled the
  procedure returns \<open>-1\<close> with the ETFs and the ETR still enabled; otherwise they are all disabled.\<close>

theorem disable_trace_sinks_only_outcome:
  "returns (disable_trace_sinks_only E (Some devices) s) (\<lambda>r s'.
     let h = hist s @ flush_calls E devices (hist s);
         tp = map fst (tpiu_script Cs_sink_disable devices);
         sinks = map (\<lambda>d. CS (Cs_sink_disable d)) (live_sinks devices) @ [CS (Cs_sink_disable (etb devices))]
     in if tpiu devices \<noteq> 0 \<and> a_int E h (CS (Cs_sink_disable (tpiu devices))) \<noteq> 0
        then r = -1 \<and> hist s' = h @ tp
        else hist s' = h @ tp @ sinks @ [CS Cs_error_count] \<and>
             r = (if a_int E (h @ tp @ sinks) (CS Cs_error_count) > 0 then -1 else 0))"
proof -
  let ?s = "s\<lparr>hist := hist s @ flush_calls E devices (hist s)\<rparr>"
  have sinks: "run_script E (disable_sinks_script devices) h = (True, h @ map fst (disable_sinks_script devices))" for h
    by (rule run_script_all_pass) (auto simp: disable_sinks_script_def each_script_def any_result_def)
  have calls: "map fst (disable_sinks_script devices) =
      map (\<lambda>d. CS (Cs_sink_disable d)) (live_sinks devices) @ [CS (Cs_sink_disable (etb devices))]"
    by (simp add: disable_sinks_script_def each_script_def comp_def)
  show ?thesis
    unfolding disable_trace_sinks_only_script
    by (cases "tpiu devices = 0")
      (simp_all add: script_result_def run_script_after [OF sinks] calls tpiu_script_def check_defs Let_def)
qed

text \<open>C18. Trace identifiers: when \<open>configure_trace\<close> succeeds, the source of every CPU has a valid descriptor
  and was given the identifier \<open>0x10 + cpu\<close>, the STM was given \<open>0x20\<close>, nothing but the descriptors of
  the CPUs changed in the device table, and for up to 16 CPUs all these identifiers differ.\<close>

theorem configure_trace_source_ids:
  assumes "configure_trace E v (Some board) (Some devices) rng n pid s = Some ((0, dv), s')"
  shows "\<exists>devices'. dv = Some devices' \<and>
     sources_identified E [0..<n_cpu board] devices devices' (hist s') \<and>
     CS (Cs_set_trace_source_id (itm devices) 0x20) \<in> set (hist s') \<and>
     (n_cpu board \<le> 16 \<longrightarrow> distinct (0x20 # map (\<lambda>i. 0x10 + int i) [0..<n_cpu board]))"
proof -
  from configure_trace_ok [OF assms] obtain devices' where "dv = Some devices'"
    and "sources_identified E [0..<n_cpu board] devices devices' (hist s')"
    and "CS (Cs_set_trace_source_id (itm devices) 0x20) \<in> set (hist s')" .
  moreover have "n_cpu board \<le> 16 \<Longrightarrow> distinct (0x20 # map (\<lambda>i. 0x10 + int i) [0..<n_cpu board])"
    by (auto simp: distinct_map inj_on_def)
  ultimately show ?thesis by blast
qed

text \<open>C17. Filtering: if all sources are ETMv4 and \<open>configure_trace\<close> succeeds, the configuration that was written last to every
  CPU's ETM holds exactly the bounds of the first memory range and, for a non-zero process id, that id as the
  context to match, with the comparators switched on, restricted to the user level, and flagged to be written.\<close>

theorem configure_trace_filters:
  fixes s :: "'a world_scheme"
  assumes "configure_trace E v (Some board) (Some devices) rng n pid s = Some ((0, Some devices'), s')"
    and "all_etmv4 E" and "i < n_cpu board"
  shows "\<exists>cfg. last_config (ptm devices' i) (hist s') = Some cfg \<and> filters E (rng 0) (size_t_of_int pid) cfg"
proof (rule configure_trace_steps [OF assms(1)])
  fix r and devices'' :: cs_devices and s1 s2 :: "'a world_scheme"
  let ?read = "CS (Cs_device_read (etb devices'') (CS_ETB_FLFMT_CTRL E))"
  let ?tail = "[?read, CS (Cs_device_write (etb devices'') (CS_ETB_FLFMT_CTRL E)
     (a_u32 E (hist s2) ?read OR CS_ETB_FLFMT_CTRL_StopFl E)), CS Cs_error_count]"
  let ?s1 = "s1\<lparr>hist := hist s1 @ [CS (Cs_set_trace_source_id (itm devices'') 0x20), CS Cs_checkpoint]\<rparr>"
  assume d: "Some devices' = Some devices''" and tl: "hist s' = hist s2 @ ?tail"
    and e: "configure_etms E v [0..<n_cpu board] devices'' rng n pid ?s1 = Some (0, s2)"
  from configure_etms_puts [OF e] obtain cs where s2: "hist s2 = hist ?s1 @ cs"
    and puts: "\<And>d cfg. last_config d cs = Some cfg \<Longrightarrow> filters E (rng 0) (size_t_of_int pid) cfg"
      "\<And>i. i < n_cpu board \<Longrightarrow> last_config (ptm devices'' i) cs \<noteq> None"
    using assms(2) by auto
  from puts(2) [OF assms(3)] obtain cfg where "last_config (ptm devices'' i) cs = Some cfg" by blast
  with puts(1) [OF this] d tl s2 show ?thesis by (simp add: last_config_append)
qed

text \<open>With any positive verbosity the configuration of an ETMv4 source does not return: \<open>show_etm_config\<close>
  stores through its null pointer.\<close>

theorem configure_etmv4_verbose_crash:
  fixes s :: "'z world_scheme"
  assumes "v > 0" and "all_etmv4 E"
  shows "configure_etmv4_addr_range_cid E v etm rng n cid s = None"
proof -
  have "\<not> CS_ETMVERSION_MAJOR E (a_int E h (CS (Cs_etm_get_version d))) < CS_ETMVERSION_ETMv4 E" for h d
    using assms(2) by (simp add: all_etmv4_def not_less)
  then have "show_etm_config E etm s' = None" for s' :: "'z world_scheme"
    by (simp add: show_etm_config_def ask_defs)
  with assms(1) show ?thesis by (simp add: configure_etmv4_addr_range_cid_def ask_defs Let_def)
qed

section \<open>Runs on the sample environment\<close>

definition sample_range :: "nat \<Rightarrow> map_info" where
  "sample_range = (\<lambda>_. \<lparr>mi_start = 0xAAAAC7260000, mi_end = 0xAAAAC7261000, mi_offset = 0, mi_buf = 0,
     mi_path = ''/tests/fib''\<rparr>)"

definition sample_world :: world where
  "sample_world = \<lparr>hist = []\<rparr>"

lemma all_etmv4_sample: "all_etmv4 sample_env"
  by (simp add: all_etmv4_def sample_int_def)

lemma upt_4: "[0..<4] = [0, 1, 2, 3 :: nat]"
  by (simp add: upt_rec)

lemma upt_2: "[0..<2] = [0, 1 :: nat]"
  by (simp add: upt_rec)

lemma init_etm_sample:
  "init_etm sample_env d s = Some (0, s\<lparr>hist := hist s @ [CS (Cs_device_has_class d),
     CS (Cs_etm_get_version d), CS (Cs_etm_clean d), CS (Cs_etm_config_init_ex d),
     CS (Cs_etm_config_get_ex d (zero_config\<lparr>flags := 2\<rparr>)),
     CS (Cs_etm_config_put_ex d (init_etm_config sample_env zero_config))]\<rparr>)"
  by (simp add: init_etm_def ask_defs Let_def sample_int_def)

lemma configure_sources_sample:
  "\<exists>s'. configure_sources sample_env [0..<4] sample_devices s = Some ((0, sample_devices), s')"
proof -
  have "(ptm sample_devices)(i := 0x100 + of_nat i) = ptm sample_devices" for i
    by (auto simp: sample_devices_def)
  then have upd: "sample_devices\<lparr>ptm := (ptm sample_devices)(i := 0x100 + of_nat i)\<rparr> = sample_devices" for i
    by simp
  show ?thesis
    unfolding upt_4 using upd [of 0] upd [of 1] upd [of 2] upd [of 3]
    by (simp add: ask_defs Let_def sample_int_def sample_dev_def init_etm_sample)
qed

lemma configure_etms_sample:
  fixes s :: "'z world_scheme"
  shows "returns (configure_etms sample_env 0 is devices rng n pid s) (\<lambda>r s'. r = 0)"
proof (induction "is" arbitrary: s)
  case Nil
  then show ?case by simp
next
  case (Cons i "is")
  have "returns (configure_etmv4_addr_range_cid sample_env 0 d rng n cid s) (\<lambda>r s'. r = 0)"
    for d cid and s :: "'z world_scheme"
    by (simp add: configure_etmv4_addr_range_cid_def ask_defs Let_def sample_int_def)
  with Cons.IH show ?case
    by (simp add: ask_defs sample_int_def)
qed

lemma configure_trace_sample:
  "\<exists>s'. configure_trace sample_env 0 (Some sample_board) (Some sample_devices) sample_range 1 42 sample_world
     = Some ((0, Some sample_devices), s')"
proof -
  have board: "n_cpu sample_board = 4" by (simp add: sample_board_def)
  from configure_sources_sample obtain s1 where
    c: "configure_sources sample_env [0..<4] sample_devices
      (sample_world\<lparr>hist := hist sample_world @ [CS Cs_disable_tpiu, CS (Cs_sink_disable (etb sample_devices))]\<rparr>)
      = Some ((0, sample_devices), s1)" by blast
  obtain r s2 where
    "configure_etms sample_env 0 [0..<4] sample_devices sample_range 1 42
      (s1\<lparr>hist := hist s1 @ [CS (Cs_set_trace_source_id (itm sample_devices) 0x20), CS Cs_checkpoint]\<rparr>)
      = Some (r, s2)" and "r = 0" by (rule returnsE [OF configure_etms_sample])
  with c show ?thesis
    by (simp add: configure_trace_def board ask_defs Let_def sample_int_def)
qed

theorem enable_trace_sinks_before_sources_witness:
  "\<exists>s' new. enable_trace sample_env 0x7000 0x80000 0 (Some sample_board) (Some sample_devices) sample_world
       = Some (0, s') \<and> hist s' = new \<and> CS (Cs_trace_enable 0x100) \<in> set new \<and>
     prefix [CS (Cs_sink_etr_setup 0x10 0x7000 0x80000 0), CS (Cs_sink_enable 0x10)] new"
proof -
  let ?cs = "enable_script sample_env 0x7000 0x80000 0 sample_board sample_devices"
  let ?s' = "\<lparr>hist = map fst ?cs\<rparr>"
  have "run_script sample_env ?cs [] = (True, [] @ map fst ?cs)"
    by (rule run_script_all_pass)
      (auto simp: enable_script_def enable_sinks_script_def each_script_def etf_script_def tpiu_script_def
        check_defs sample_int_def)
  then have run: "enable_trace sample_env 0x7000 0x80000 0 (Some sample_board) (Some sample_devices) sample_world
       = Some (0, ?s')"
    by (simp add: enable_trace_script script_result_def sample_world_def)
  have src: "CS (Cs_trace_enable 0x100) \<in> set (hist ?s')"
    by (simp add: enable_script_def each_script_def sample_board_def sample_devices_def upt_4)
  have "hist ?s' = hist sample_world @ hist ?s'" by (simp add: sample_world_def)
  from enable_trace_sinks_before_sources [OF run this src refl]
  have "prefix [CS (Cs_sink_etr_setup 0x10 0x7000 0x80000 0), CS (Cs_sink_enable 0x10)] (hist ?s')"
    by (auto simp: enable_sinks_script_def sample_board_def sample_devices_def prefix_def)
  with run src show ?thesis by blast
qed


theorem configure_trace_source_ids_witness:
  "\<exists>s'. configure_trace sample_env 0 (Some sample_board) (Some sample_devices) sample_range 1 42 sample_world
     = Some ((0, Some sample_devices), s') \<and> CS (Cs_set_trace_source_id 0x12 0x20) \<in> set (hist s')"
proof -
  from configure_trace_sample obtain s' where
    run: "configure_trace sample_env 0 (Some sample_board) (Some sample_devices) sample_range 1 42 sample_world
     = Some ((0, Some sample_devices), s')" by blast
  from configure_trace_source_ids [OF run] have "CS (Cs_set_trace_source_id 0x12 0x20) \<in> set (hist s')"
    by (simp add: sample_devices_def)
  with run show ?thesis by blast
qed

theorem configure_trace_filters_witness:
  "\<exists>s' cfg. configure_trace sample_env 0 (Some sample_board) (Some sample_devices) sample_range 1 42 sample_world
     = Some ((0, Some sample_devices), s') \<and> last_config 0x103 (hist s') = Some cfg \<and>
     filters sample_env (sample_range 0) 42 cfg"
proof -
  from configure_trace_sample obtain s' where
    run: "configure_trace sample_env 0 (Some sample_board) (Some sample_devices) sample_range 1 42 sample_world
     = Some ((0, Some sample_devices), s')" by blast
  have "3 < n_cpu sample_board" by (simp add: sample_board_def)
  from configure_trace_filters [OF run all_etmv4_sample this]
  obtain cfg where "last_config 0x103 (hist s') = Some cfg" and "filters sample_env (sample_range 0) 42 cfg"
    by (auto simp: sample_devices_def)
  with run show ?thesis by blast
qed

theorem configure_etmv4_verbose_crash_witness:
  "all_etmv4 sample_env \<and>
   configure_etmv4_addr_range_cid sample_env 1 0x100 sample_range 1 42 sample_world = None"
proof
  show "all_etmv4 sample_env" by (rule all_etmv4_sample)
  from configure_etmv4_verbose_crash [OF zero_less_one this]
  show "configure_etmv4_addr_range_cid sample_env 1 0x100 sample_range 1 42 sample_world = None" .
qed

end
