(* ===== verification/TraceState.thy ===== *)
theory TraceState
  imports MapInfo
begin

text \<open>
  The trace state machine of \<open>src/common.c\<close>: the states and events, the procedures
  \<open>signal_trace_event\<close>, \<open>set_trace_state\<close> and the two callbacks, and the global variables of
  the file as records. Each of these procedures holds its mutexes from the first to the last access, so
  it is one atomic step. The last section states the contract of a component that publishes its
  transitions as events (\<open>event_source\<close>) and shows that the machine implements it on the
  transitions the program makes.
\<close>

section \<open>States and events\<close>

datatype trace_state_t =
  init_state | fini_state | ready_state | running_state | suspended_state

datatype trace_event_t =
  init_event | fini_event | ready_event | start_event | stop_event | suspend_event | resume_event

record trace_vars = world +
  trace_state :: trace_state_t
  trace_event :: trace_event_t

definition signal_trace_event :: "trace_event_t \<Rightarrow> 'z trace_vars_scheme \<Rightarrow> 'z trace_vars_scheme" where
  "signal_trace_event event s = s\<lparr>trace_event := event\<rparr>"

definition set_trace_state :: "trace_state_t \<Rightarrow> 'z trace_vars_scheme \<Rightarrow> 'z trace_vars_scheme" where
  "set_trace_state new_state s =
     (let old_state = trace_state s;
          s = s\<lparr>trace_state := new_state\<rparr>
      in if old_state = init_state then signal_trace_event init_event s
         else if new_state = fini_state then signal_trace_event fini_event s
         else if new_state = ready_state then signal_trace_event stop_event s
         else if old_state = ready_state \<and> new_state = running_state then signal_trace_event start_event s
         else if old_state = running_state \<and> new_state = suspended_state then signal_trace_event suspend_event s
         else if old_state = suspended_state \<and> new_state = running_state then signal_trace_event resume_event s
         else s)"

definition trace_suspend_callback :: "'z trace_vars_scheme \<Rightarrow> 'z trace_vars_scheme" where
  "trace_suspend_callback s = set_trace_state suspended_state s"

definition trace_resume_callback :: "'z trace_vars_scheme \<Rightarrow> 'z trace_vars_scheme" where
  "trace_resume_callback s = set_trace_state running_state s"

section \<open>Behaviour\<close>

lemma trace_state_set [simp]: "trace_state (set_trace_state st s) = st"
  by (simp add: set_trace_state_def signal_trace_event_def Let_def)

lemma set_trace_state_frame [simp]:
  "hist (set_trace_state st s) = hist s"
  "trace_vars.more (set_trace_state st s) = trace_vars.more s"
  by (simp_all add: set_trace_state_def signal_trace_event_def Let_def)

text \<open>The rows of the table in the comment of \<open>set_trace_state\<close>, as a relation.\<close>

inductive signals :: "trace_state_t \<Rightarrow> trace_state_t \<Rightarrow> trace_event_t \<Rightarrow> bool" where
  from_init: "signals init_state st init_event"
| to_fini: "st \<noteq> init_state \<Longrightarrow> signals st fini_state fini_event"
| to_ready: "st \<noteq> init_state \<Longrightarrow> signals st ready_state stop_event"
| start: "signals ready_state running_state start_event"
| suspend: "signals running_state suspended_state suspend_event"
| resume: "signals suspended_state running_state resume_event"

inductive_simps signals_simps: "signals st st' e"

lemma set_trace_state_signals:
  "signals (trace_state s) st e \<Longrightarrow> trace_event (set_trace_state st s) = e"
  by (auto simp: signals_simps set_trace_state_def signal_trace_event_def)

lemma set_trace_state_silent:
  "(\<nexists>e. signals (trace_state s) st e) \<Longrightarrow> trace_event (set_trace_state st s) = trace_event s"
  by (cases "trace_state s"; cases st) (auto simp: signals_simps set_trace_state_def)

text \<open>In this state, the last event tells where the machine is. The initial event and state say
  nothing, and a final event is never overwritten by a move the program makes.\<close>

fun event_agrees :: "trace_event_t \<Rightarrow> trace_state_t \<Rightarrow> bool" where
  "event_agrees start_event st = (st = running_state)"
| "event_agrees resume_event st = (st = running_state)"
| "event_agrees suspend_event st = (st = suspended_state)"
| "event_agrees stop_event st = (st = ready_state)"
| "event_agrees fini_event st = (st = fini_state)"
| "event_agrees init_event st = True"
| "event_agrees ready_event st = False"

section \<open>Event sources\<close>

text \<open>A component that moves between states and publishes an event per move. \<open>legal\<close> says which
  moves are made; \<open>agrees\<close> relates the last event to the state. Whoever waits for an event may then
  conclude that the state is the one it announces, as long as nobody moved it since.\<close>

fun path_ok :: "('st \<Rightarrow> 'st \<Rightarrow> bool) \<Rightarrow> 'st \<Rightarrow> 'st list \<Rightarrow> bool" where
  "path_ok r st [] = True"
| "path_ok r st (st' # sts) = (r st st' \<and> path_ok r st' sts)"

locale event_source =
  fixes state_of :: "'s \<Rightarrow> 'st" and event_of :: "'s \<Rightarrow> 'e"
    and move :: "'st \<Rightarrow> 's \<Rightarrow> 's"
    and legal :: "'st \<Rightarrow> 'st \<Rightarrow> bool" and agrees :: "'e \<Rightarrow> 'st \<Rightarrow> bool"
  assumes state_move: "state_of (move st s) = st"
    and agrees_move: "agrees (event_of s) (state_of s) \<Longrightarrow> legal (state_of s) st \<Longrightarrow>
      agrees (event_of (move st s)) st"
begin

lemma agrees_path:
  "agrees (event_of s) (state_of s) \<Longrightarrow> path_ok legal (state_of s) sts \<Longrightarrow>
   agrees (event_of (fold move sts s)) (state_of (fold move sts s))"
proof (induction sts arbitrary: s)
  case Nil
  then show ?case by simp
next
  case (Cons st sts)
  have "agrees (event_of (move st s)) (state_of (move st s))"
    using Cons.prems by (simp add: state_move agrees_move)
  moreover have "path_ok legal (state_of (move st s)) sts"
    using Cons.prems by (simp add: state_move)
  ultimately show ?case using Cons.IH by simp
qed

end

text \<open>The moves of the program: every signalling move, the two repeated moves that only print a
  message (a second stop or a second resumption of the child), but nothing out of the final state
  and no move from ready to suspended.\<close>

definition legal_move :: "trace_state_t \<Rightarrow> trace_state_t \<Rightarrow> bool" where
  "legal_move st st' \<longleftrightarrow> (\<exists>e. signals st st' e) \<or> (st = st' \<and> st \<in> {running_state, suspended_state})"

interpretation ts: event_source
  "trace_state :: 'z trace_vars_scheme \<Rightarrow> trace_state_t" trace_event set_trace_state legal_move event_agrees
proof
  fix st and s :: "'z trace_vars_scheme"
  show "trace_state (set_trace_state st s) = st" by simp
  assume "event_agrees (trace_event s) (trace_state s)" and "legal_move (trace_state s) st"
  then show "event_agrees (trace_event (set_trace_state st s)) st"
    by (auto simp: legal_move_def signals_simps set_trace_state_def signal_trace_event_def)
qed

section \<open>The global variables of common.c\<close>

text \<open>A buffer that grows: the variables \<open>trace_buf\<close>, \<open>trace_buf_size\<close>, \<open>trace_buf_ptr\<close> (and
  their \<open>ksight\<close> twins), the bytes of the mapping, by offset, and whether \<open>buf\<close> points to a mapping.\<close>

record growbuf =
  buf :: u64
  buf_size :: u64
  buf_ptr :: u64
  buf_mem :: "nat \<Rightarrow> u8"
  buf_live :: bool

record globals = trace_vars +
  board_name :: string
  board :: "board_t option"
  devices :: cs_devices
  udmabuf_num :: int
  trace_cpu :: int
  export_config :: bool
  fetcher_on :: bool
  etr_ram_addr :: u64
  etr_ram_size :: u64
  ksight_on :: bool
  ksight_ram_addr :: u64
  range_count :: int
  map_infos :: "nat \<Rightarrow> map_info"
  trace_id :: int
  child_pid :: int
  is_first_trace :: bool
  trace_buf :: growbuf
  ksight_buf :: growbuf
  fetcher_ready :: bool
  registration_verbose :: int

definition null_buf :: growbuf where
  "null_buf = \<lparr>buf = 0, buf_size = 0, buf_ptr = 0, buf_mem = (\<lambda>_. 0), buf_live = False\<rparr>"

definition RANGE_MAX :: nat where "RANGE_MAX = 1"
definition DEFAULT_TRACE_CPU :: int where "DEFAULT_TRACE_CPU = 0"
definition DEFAULT_UDMABUF_NUM :: int where "DEFAULT_UDMABUF_NUM = 0"
definition DEFAULT_TRACE_SIZE :: u64 where "DEFAULT_TRACE_SIZE = 0x80000"
definition DEFAULT_TRACE_NAME :: string where "DEFAULT_TRACE_NAME = ''cstrace.bin''"
definition DEFAULT_KSIGHT_NAME :: string where "DEFAULT_KSIGHT_NAME = ''cstrace.ksight''"
definition TRACE_DISABLE_TRIAL :: nat where "TRACE_DISABLE_TRIAL = 8"
definition TRACE_DISABLE_TRIAL_USLEEP :: nat where "TRACE_DISABLE_TRIAL_USLEEP = 10"

text \<open>The values at program start, with the verbosity that \<open>main\<close> assigns first.\<close>

definition initial_globals :: globals where
  "initial_globals = \<lparr>hist = [], trace_state = init_state, trace_event = init_event,
     board_name = ''ZCU-104'', board = None, devices = zero_devices,
     udmabuf_num = DEFAULT_UDMABUF_NUM, trace_cpu = -1, export_config = False, fetcher_on = False,
     etr_ram_addr = 0, etr_ram_size = 0, ksight_on = False, ksight_ram_addr = 0, range_count = 0,
     map_infos = (\<lambda>_. \<lparr>mi_start = 0, mi_end = 0, mi_offset = 0, mi_buf = 0, mi_path = []\<rparr>),
     trace_id = -1, child_pid = -1, is_first_trace = True, trace_buf = null_buf,
     ksight_buf = null_buf, fetcher_ready = True, registration_verbose = 0\<rparr>"

section \<open>Properties\<close>

text \<open>C5. \<open>set_trace_state\<close> implements the transition table: it moves to the new state; it signals the event
  of the table if the move is in the table and leaves the event alone otherwise; the table is
  deterministic; and nothing else changes.\<close>

theorem set_trace_state_table:
  "(signals (trace_state s) st e \<longrightarrow> set_trace_state st s = s\<lparr>trace_state := st, trace_event := e\<rparr>) \<and>
   ((\<nexists>e. signals (trace_state s) st e) \<longrightarrow> set_trace_state st s = s\<lparr>trace_state := st\<rparr>)"
  by (cases "trace_state s"; cases st)
    (auto simp: signals_simps set_trace_state_def signal_trace_event_def)

theorem set_trace_state_table_witness:
  "signals (trace_state (initial_globals\<lparr>trace_state := running_state\<rparr>)) suspended_state suspend_event \<and>
   trace_event (set_trace_state suspended_state (initial_globals\<lparr>trace_state := running_state\<rparr>)) = suspend_event \<and>
   trace_event (set_trace_state running_state (initial_globals\<lparr>trace_state := running_state\<rparr>)) = init_event"
proof -
  let ?s = "initial_globals\<lparr>trace_state := running_state\<rparr>"
  have "signals (trace_state ?s) suspended_state suspend_event" by (simp add: signals.suspend)
  moreover have "\<nexists>e. signals (trace_state ?s) running_state e" by (simp add: signals_simps)
  ultimately show ?thesis
    using set_trace_state_table [of ?s suspended_state suspend_event]
      set_trace_state_table [of ?s running_state init_event]
    by (simp add: initial_globals_def)
qed

text \<open>After any sequence of moves that the program makes, starting at program start, the last event
  announces the state the machine is in: start and resume announce running, suspend suspended,
  stop ready, fini fini.\<close>

theorem trace_event_announces_state:
  assumes "path_ok legal_move init_state sts"
    and "s = fold set_trace_state sts initial_globals"
  shows "event_agrees (trace_event s) (trace_state s)"
  using ts.agrees_path [of initial_globals sts] assms by (simp add: initial_globals_def)

theorem trace_event_announces_state_witness:
  "path_ok legal_move init_state [ready_state, running_state, suspended_state, running_state, ready_state, fini_state] \<and>
   (let s = fold set_trace_state [ready_state, running_state, suspended_state, running_state, ready_state, fini_state]
      initial_globals in trace_event s = fini_event \<and> event_agrees (trace_event s) (trace_state s))"
proof -
  let ?sts = "[ready_state, running_state, suspended_state, running_state, ready_state, fini_state]"
  have l: "path_ok legal_move init_state ?sts"
    by (simp add: legal_move_def signals_simps)
  have "trace_event (fold set_trace_state ?sts initial_globals) = fini_event"
    by (simp add: set_trace_state_def signal_trace_event_def Let_def initial_globals_def)
  with l trace_event_announces_state [OF l refl] show ?thesis by simp
qed

end
