(* ===== verification/Buffers.thy ===== *)
theory Buffers
  imports TraceState
begin

text \<open>
  The two growing buffers of \<open>src/common.c\<close>, for the trace and for the ksight events: allocation,
  release, the fetch procedures that fill them and the export procedures that write them to a file.
  \<open>contents\<close> abstracts a buffer to the bytes collected so far. The main results are that a fetch
  returns, never writes outside the mapping, keeps what was collected and adds what the device
  delivered, and that an export writes exactly the collected bytes.
\<close>

section \<open>Pointers and memory\<close>

definition MAP_FAILED :: u64 where "MAP_FAILED = -1"

definition buf_offset :: "growbuf \<Rightarrow> u64" where
  "buf_offset b = buf_ptr b - buf b"

definition buf_remain :: "growbuf \<Rightarrow> u64" where
  "buf_remain b = buf_size b - buf_offset b"

definition write_at :: "nat \<Rightarrow> u8 list \<Rightarrow> (nat \<Rightarrow> u8) \<Rightarrow> nat \<Rightarrow> u8" where
  "write_at off data m = (\<lambda>i. if off \<le> i \<and> i < off + length data then data ! (i - off) else m i)"

text \<open>Storing bytes at the buffer pointer; outside the mapping this ends the process.\<close>

definition store_bytes :: "u8 list \<Rightarrow> growbuf \<Rightarrow> growbuf option" where
  "store_bytes data b =
     (if data = [] then Some b
      else if buf_live b \<and> unat (buf_offset b) + length data \<le> unat (buf_size b)
      then Some (b\<lparr>buf_mem := write_at (unat (buf_offset b)) data (buf_mem b)\<rparr>)
      else None)"

text \<open>The first bytes of the buffer, as \<open>fwrite\<close> reads them.\<close>

definition load_bytes :: "growbuf \<Rightarrow> u64 \<Rightarrow> u8 list option" where
  "load_bytes b n =
     (if n = 0 then Some []
      else if buf_live b \<and> unat n \<le> unat (buf_size b) then Some (map (buf_mem b) [0..<unat n])
      else None)"

text \<open>The effect of a call of \<open>mremap\<close> that moves the mapping: the old bytes are kept and the new ones
  read as zero; the three variables are then recomputed as the code does.\<close>

definition remap :: "u64 \<Rightarrow> u64 \<Rightarrow> growbuf \<Rightarrow> growbuf" where
  "remap new_buf new_size b =
     b\<lparr>buf := new_buf, buf_size := new_size, buf_ptr := new_buf + (buf_ptr b - buf b),
       buf_mem := (\<lambda>i. if i < unat (buf_size b) then buf_mem b i else 0),
       buf_live := (buf_live b \<and> new_buf \<noteq> MAP_FAILED)\<rparr>"

section \<open>Allocation and release\<close>

text \<open>A fresh anonymous mapping reads as zero.\<close>

definition alloc_buf :: "u64 \<Rightarrow> growbuf \<Rightarrow> int \<times> growbuf" where
  "alloc_buf p b =
     (let b = b\<lparr>buf := p, buf_live := (p \<noteq> MAP_FAILED), buf_mem := (\<lambda>_. 0)\<rparr>
      in if p = MAP_FAILED then (-1, b)
         else (0, b\<lparr>buf_size := DEFAULT_TRACE_SIZE, buf_ptr := p\<rparr>))"

definition alloc_trace_buf :: "env \<Rightarrow> 'z globals_scheme \<Rightarrow> (int \<times> 'z globals_scheme) option" where
  "alloc_trace_buf E s = do {
     (p, s) \<leftarrow> ask (a_u64 E) (OS (Mmap DEFAULT_TRACE_SIZE)) s;
     let (r, b) = alloc_buf p (trace_buf s);
     Some (r, s\<lparr>trace_buf := b\<rparr>)
   }"

definition alloc_ksight_buf :: "env \<Rightarrow> 'z globals_scheme \<Rightarrow> (int \<times> 'z globals_scheme) option" where
  "alloc_ksight_buf E s = do {
     (p, s) \<leftarrow> ask (a_u64 E) (OS (Mmap DEFAULT_TRACE_SIZE)) s;
     let (r, b) = alloc_buf p (ksight_buf s);
     Some (r, s\<lparr>ksight_buf := b\<rparr>)
   }"

definition free_trace_buf :: "env \<Rightarrow> 'z globals_scheme \<Rightarrow> (unit \<times> 'z globals_scheme) option" where
  "free_trace_buf E s = do {
     (_, s) \<leftarrow> (if etb (devices s) \<noteq> 0 then cs_int E (Cs_empty_trace_buffer (etb (devices s))) s
                else Some (0, s));
     if buf (trace_buf s) \<noteq> 0 then do {
       (_, s) \<leftarrow> os_int E (Munmap (buf (trace_buf s)) (buf_size (trace_buf s))) s;
       Some ((), s\<lparr>trace_buf := (trace_buf s)\<lparr>buf_ptr := 0, buf_live := False\<rparr>\<rparr>)
     } else Some ((), s)
   }"

definition free_ksight_buf :: "env \<Rightarrow> 'z globals_scheme \<Rightarrow> (unit \<times> 'z globals_scheme) option" where
  "free_ksight_buf E s =
     (if buf (ksight_buf s) \<noteq> 0 then do {
        (_, s) \<leftarrow> os_int E (Munmap (buf (ksight_buf s)) (buf_size (ksight_buf s))) s;
        Some ((), s\<lparr>ksight_buf := (ksight_buf s)\<lparr>buf_ptr := 0, buf_live := False\<rparr>\<rparr>)
      } else Some ((), s))"

section \<open>Export\<close>

text \<open>The two export procedures differ in the buffer only. A null stream is answered as 0.\<close>

definition export_buf ::
  "env \<Rightarrow> growbuf \<Rightarrow> string \<Rightarrow> 'z world_scheme \<Rightarrow> (int \<times> 'z world_scheme) option" where
  "export_buf E b name s = do {
     (cwd, s) \<leftarrow> ask (a_text E) (OS Getcwd) s;
     case cwd of
       None \<Rightarrow> Some (-1, s)
     | Some cwd \<Rightarrow> do {
         (fp, s) \<leftarrow> os_int E (Fopen (snprintf PATH_MAX (cwd @ ''/'' @ name)) ''wb'') s;
         if fp = 0 then Some (-1, s)
         else do {
           data \<leftarrow> load_bytes b (buf_offset b);
           (_, s) \<leftarrow> os_int E (Fwrite fp data) s;
           (_, s) \<leftarrow> os_int E (Fclose fp) s;
           Some (0, s)
         }
       }
   }"

definition export_trace :: "env \<Rightarrow> string \<Rightarrow> 'z globals_scheme \<Rightarrow> (int \<times> 'z globals_scheme) option" where
  "export_trace E trace_name s = export_buf E (trace_buf s) trace_name s"

definition export_ksight :: "env \<Rightarrow> string \<Rightarrow> 'z globals_scheme \<Rightarrow> (int \<times> 'z globals_scheme) option" where
  "export_ksight E ksight_name s = export_buf E (ksight_buf s) ksight_name s"

section \<open>Fetching the trace\<close>

partial_function (option) grow_trace_buf ::
  "env \<Rightarrow> int \<Rightarrow> growbuf \<Rightarrow> 'z world_scheme \<Rightarrow> ((bool \<times> growbuf) \<times> 'z world_scheme) option" where
  "grow_trace_buf E len b s =
     (if size_t_of_int len > buf_remain b then do {
        (new_buf, s) \<leftarrow> ask (a_u64 E) (OS (Mremap (buf b) (buf_size b) (buf_size b * 2))) s;
        if new_buf = MAP_FAILED then Some ((False, b), s)
        else grow_trace_buf E len (remap new_buf (buf_size b * 2) b) s
      } else Some ((True, b), s))"

definition fetch_trace :: "env \<Rightarrow> 'z globals_scheme \<Rightarrow> (int \<times> 'z globals_scheme) option" where
  "fetch_trace E s = do {
     (len, s) \<leftarrow> cs_int E (Cs_get_buffer_unread_bytes (etb (devices s))) s;
     let b = (trace_buf s)\<lparr>buf_ptr := ALIGN_UP (buf_ptr (trace_buf s)) 0x8\<rparr>;
     ((ok, b), s) \<leftarrow> grow_trace_buf E len b s;
     if \<not> ok then Some (-1, s\<lparr>trace_buf := b\<rparr>)
     else do {
       ((n, data), s) \<leftarrow> ask (a_bytes E) (CS (Cs_get_trace_data (etb (devices s)) (buf_ptr b) (buf_remain b))) s;
       b \<leftarrow> store_bytes data b;
       (_, s) \<leftarrow> cs_int E (Cs_empty_trace_buffer (etb (devices s))) s;
       Some (0, s\<lparr>trace_buf := b\<lparr>buf_ptr := buf_ptr b + word_of_int n\<rparr>\<rparr>)
     }
   }"

section \<open>Fetching the ksight events\<close>

text \<open>The structures of \<open>include/ksight.h\<close>: three 32-bit fields, four bytes of padding and two 64-bit
  fields per object; two objects and a time stamp per event.\<close>

definition sizeof_ksight_object :: nat where "sizeof_ksight_object = 3 * 4 + 4 + 2 * 8"
definition sizeof_ksight_tag_event :: nat where "sizeof_ksight_tag_event = 2 * sizeof_ksight_object + 8"

definition EAGAIN :: int where "EAGAIN = 11"
definition EWOULDBLOCK :: int where "EWOULDBLOCK = 11"

text \<open>The branch at the top of the loop: too little room for one event. The result of \<open>mremap\<close> is
  compared with the null pointer.\<close>

definition expand_ksight_buf ::
  "env \<Rightarrow> growbuf \<Rightarrow> 'z world_scheme \<Rightarrow> ((bool \<times> growbuf) \<times> 'z world_scheme) option" where
  "expand_ksight_buf E b s =
     (if buf_remain b < of_nat sizeof_ksight_tag_event then do {
        (new_buf, s) \<leftarrow> ask (a_u64 E) (OS (Mremap (buf b) (buf_size b) (buf_size b * 2))) s;
        if new_buf = 0 then Some ((False, b), s)
        else Some ((True, remap new_buf (buf_size b * 2) b), s)
      } else Some ((True, b), s))"

partial_function (option) ksight_read_loop ::
  "env \<Rightarrow> int \<Rightarrow> growbuf \<Rightarrow> 'z world_scheme \<Rightarrow> ((int \<times> growbuf) \<times> 'z world_scheme) option" where
  "ksight_read_loop E fd b s = do {
     ((ok, b), s) \<leftarrow> expand_ksight_buf E b s;
     if \<not> ok then Some ((-1, b), s)
     else do {
       ((n, data), s) \<leftarrow> ask (a_bytes E) (OS (Read fd (buf_remain b))) s;
       if n < 0 then
         if a_errno E (hist s) = EAGAIN \<or> a_errno E (hist s) = EWOULDBLOCK then Some ((0, b), s)
         else Some ((-1, b), s)
       else if n = 0 then Some ((0, b), s)
       else do {
         b \<leftarrow> store_bytes data b;
         ksight_read_loop E fd (b\<lparr>buf_ptr := buf_ptr b + word_of_int n\<rparr>) s
       }
     }
   }"

definition fetch_ksight_events :: "env \<Rightarrow> 'z globals_scheme \<Rightarrow> (int \<times> 'z globals_scheme) option" where
  "fetch_ksight_events E s = do {
     (fd, s) \<leftarrow> os_int E (Open ''/dev/ksight'') s;
     if fd < 0 then Some (-1, s)
     else do {
       let b = (ksight_buf s)\<lparr>buf_ptr := ALIGN_UP (buf_ptr (ksight_buf s)) 0x8\<rparr>;
       ((ret, b), s) \<leftarrow> ksight_read_loop E fd b s;
       (_, s) \<leftarrow> os_int E (Close fd) s;
       Some (ret, s\<lparr>ksight_buf := b\<rparr>)
     }
   }"

section \<open>Abstraction and invariant\<close>

definition off :: "growbuf \<Rightarrow> nat" where
  "off b = unat (buf_ptr b) - unat (buf b)"

text \<open>The bytes collected so far.\<close>

definition contents :: "growbuf \<Rightarrow> u8 list" where
  "contents b = map (buf_mem b) [0..<off b]"

text \<open>User space addresses of a process lie below \<open>2 ^ 52\<close>.\<close>

definition VA_LIMIT :: nat where "VA_LIMIT = 2 ^ 52"

definition buf_ok :: "growbuf \<Rightarrow> bool" where
  "buf_ok b \<longleftrightarrow> buf_live b \<and> buf b \<noteq> 0 \<and> unat (buf b) + unat (buf_size b) \<le> VA_LIMIT \<and>
     8 dvd unat (buf b) \<and> 8 dvd unat (buf_size b) \<and> 0 < unat (buf_size b) \<and>
     unat (buf b) \<le> unat (buf_ptr b) \<and> off b \<le> unat (buf_size b)"

lemma buf_okD:
  assumes "buf_ok b"
  shows "unat (buf_offset b) = off b" and "unat (buf_remain b) = unat (buf_size b) - off b"
    and "unat (buf_ptr b) = unat (buf b) + off b" and "off b \<le> unat (buf_size b)"
proof -
  have le: "unat (buf b) \<le> unat (buf_ptr b)" and o: "off b \<le> unat (buf_size b)"
    using assms by (auto simp: buf_ok_def)
  show offs: "unat (buf_offset b) = off b"
    unfolding buf_offset_def off_def by (rule unat_word_sub_no_wrap [OF le])
  with o show "unat (buf_remain b) = unat (buf_size b) - off b"
    unfolding buf_remain_def by (simp add: unat_word_sub_no_wrap)
  from le show "unat (buf_ptr b) = unat (buf b) + off b" by (simp add: off_def)
  show "off b \<le> unat (buf_size b)" by (rule o)
qed

lemma length_contents [simp]: "length (contents b) = off b"
  by (simp add: contents_def)

text \<open>Moving the pointer to offset \<open>n\<close>.\<close>

lemma buf_ok_move:
  assumes "buf_ok b" and "unat p = unat (buf b) + n" and "n \<le> unat (buf_size b)"
  shows "buf_ok (b\<lparr>buf_ptr := p\<rparr>)" and "off (b\<lparr>buf_ptr := p\<rparr>) = n"
    and "contents (b\<lparr>buf_ptr := p\<rparr>) = map (buf_mem b) [0..<n]"
  using assms by (auto simp: buf_ok_def off_def contents_def)

lemma ALIGN_UP_8:
  assumes "unat (v :: u64) + 8 \<le> 2 ^ 64"
  shows "unat (ALIGN_UP v 0x8) = (unat v + 7) div 8 * 8"
  using ALIGN_UP_unat [of 3 v] assms by simp

definition pad8 :: "nat \<Rightarrow> nat" where
  "pad8 n = (n + 7) div 8 * 8 - n"

lemma pad8_less: "pad8 n < 8"
  unfolding pad8_def by presburger

lemma pad8_dvd: "8 dvd n + pad8 n"
proof -
  have "n + pad8 n = (n + 7) div 8 * 8" unfolding pad8_def by presburger
  then show ?thesis by simp
qed

lemma buf_align:
  assumes "buf_ok b"
  shows "buf_ok (b\<lparr>buf_ptr := ALIGN_UP (buf_ptr b) 0x8\<rparr>)"
    and "off (b\<lparr>buf_ptr := ALIGN_UP (buf_ptr b) 0x8\<rparr>) = off b + pad8 (off b)"
    and "\<exists>pad. contents (b\<lparr>buf_ptr := ALIGN_UP (buf_ptr b) 0x8\<rparr>) = contents b @ pad \<and>
           length pad = pad8 (off b)"
proof -
  from assms obtain k l where b: "unat (buf b) = 8 * k" and sz: "unat (buf_size b) = 8 * l"
    and lim: "8 * k + 8 * l \<le> 2 ^ 52" and o: "off b \<le> 8 * l"
    by (auto simp: buf_ok_def VA_LIMIT_def elim!: dvdE)
  have p: "unat (buf_ptr b) = 8 * k + off b" using buf_okD(3) [OF assms] b by simp
  have al: "unat (ALIGN_UP (buf_ptr b) 0x8) = unat (buf b) + (off b + pad8 (off b))"
  proof (subst ALIGN_UP_8)
    show "unat (buf_ptr b) + 8 \<le> 2 ^ 64" using lim o p by simp
    show "(unat (buf_ptr b) + 7) div 8 * 8 = unat (buf b) + (off b + pad8 (off b))"
      unfolding p b pad8_def by presburger
  qed
  have le: "off b + pad8 (off b) \<le> unat (buf_size b)"
    using o sz unfolding pad8_def by simp
  show "buf_ok (b\<lparr>buf_ptr := ALIGN_UP (buf_ptr b) 0x8\<rparr>)"
    and "off (b\<lparr>buf_ptr := ALIGN_UP (buf_ptr b) 0x8\<rparr>) = off b + pad8 (off b)"
    using buf_ok_move [OF assms al le] by simp_all
  have "contents (b\<lparr>buf_ptr := ALIGN_UP (buf_ptr b) 0x8\<rparr>) =
      contents b @ map (buf_mem b) [off b..<off b + pad8 (off b)]"
    using buf_ok_move(3) [OF assms al le] by (simp add: contents_def flip: map_append upt_add_eq_append)
  then show "\<exists>pad. contents (b\<lparr>buf_ptr := ALIGN_UP (buf_ptr b) 0x8\<rparr>) = contents b @ pad \<and>
           length pad = pad8 (off b)" by auto
qed

text \<open>What \<open>mremap\<close> promises: failure, or a page-aligned, non-null address of a mapping of the new size
  that lies in user space.\<close>

definition mapping_at :: "u64 \<Rightarrow> u64 \<Rightarrow> bool" where
  "mapping_at p n \<longleftrightarrow> 0 < unat p \<and> 0x1000 dvd unat p \<and> unat p + unat n \<le> VA_LIMIT"

definition mremap_contract :: "env \<Rightarrow> bool" where
  "mremap_contract E \<longleftrightarrow> (\<forall>h old osz nsz. let p = a_u64 E h (OS (Mremap old osz nsz)) in
     p = MAP_FAILED \<or> mapping_at p nsz)"

lemma mapping_at_not_failed: "mapping_at p n \<Longrightarrow> p \<noteq> MAP_FAILED \<and> p \<noteq> 0"
  by (auto simp: mapping_at_def MAP_FAILED_def VA_LIMIT_def unsigned_minus_1_eq_mask mask_eq_exp_minus_1)

lemma buf_size_double: "buf_ok b \<Longrightarrow> unat (buf_size b * 2) = 2 * unat (buf_size b)"
  by (rule unat_word_double) (auto simp: buf_ok_def VA_LIMIT_def)

lemma buf_remap:
  assumes "buf_ok b" and "mapping_at p (buf_size b * 2)"
  shows "buf_ok (remap p (buf_size b * 2) b)" and "off (remap p (buf_size b * 2) b) = off b"
    and "contents (remap p (buf_size b * 2) b) = contents b"
    and "unat (buf_remain (remap p (buf_size b * 2) b)) = unat (buf_remain b) + unat (buf_size b)"
proof -
  let ?b = "remap p (buf_size b * 2) b"
  have ok: "unat (buf_offset b) = off b" "off b \<le> unat (buf_size b)"
    using buf_okD [OF assms(1)] by auto
  have dbl: "unat (buf_size b * 2) = 2 * unat (buf_size b)" by (rule buf_size_double [OF assms(1)])
  have lim: "unat p + 2 * unat (buf_size b) \<le> VA_LIMIT" "8 dvd unat p"
    using assms(2) dbl by (auto simp: mapping_at_def dest: dvd_trans [of 8 "0x1000", rotated])
  have ptr: "unat (buf_ptr ?b) = unat p + off b"
    unfolding remap_def using lim ok
    by (simp add: flip: buf_offset_def) (subst unat_word_add_no_wrap, auto simp: VA_LIMIT_def)
  show "off ?b = off b" using ptr by (simp add: off_def) (simp add: remap_def)
  moreover show "buf_ok ?b"
    using assms lim ok dbl ptr mapping_at_not_failed [OF assms(2)]
    by (auto simp: buf_ok_def off_def remap_def)
  ultimately show "unat (buf_remain ?b) = unat (buf_remain b) + unat (buf_size b)"
    using buf_okD(2) [of ?b] buf_okD(2) [OF assms(1)] ok dbl by (simp add: remap_def)
  show "contents ?b = contents b"
    using \<open>off ?b = off b\<close> ok by (auto simp: contents_def) (simp add: remap_def)
qed

lemma write_at_Nil [simp]: "write_at k [] m = m"
  by (rule ext) (auto simp: write_at_def)

text \<open>Storing at the pointer and moving past it appends.\<close>

definition append_bytes :: "u8 list \<Rightarrow> growbuf \<Rightarrow> growbuf option" where
  "append_bytes data b =
     do { b \<leftarrow> store_bytes data b; Some (b\<lparr>buf_ptr := buf_ptr b + of_nat (length data)\<rparr>) }"

lemma append_bytes_ok:
  assumes "buf_ok b" and "length data \<le> unat (buf_remain b)"
  obtains b' where "append_bytes data b = Some b'" and "buf_ok b'"
    and "contents b' = contents b @ data" and "off b' = off b + length data"
    and "buf_size b' = buf_size b"
proof (rule that)
  note ok = buf_okD [OF assms(1)]
  let ?b = "b\<lparr>buf_mem := write_at (off b) data (buf_mem b)\<rparr>"
  let ?p = "buf_ptr b + of_nat (length data)"
  have room: "off b + length data \<le> unat (buf_size b)" using assms(2) ok by simp
  have lim: "unat (buf b) + unat (buf_size b) \<le> VA_LIMIT" using assms(1) by (simp add: buf_ok_def)
  have len: "unat (of_nat (length data) :: u64) = length data"
    using room lim by (simp add: unat_of_nat VA_LIMIT_def)
  have ptr: "unat ?p = unat (buf ?b) + (off b + length data)"
    using room lim ok(3) len by (subst unat_word_add_no_wrap) (simp_all add: VA_LIMIT_def)
  have okb: "buf_ok ?b" using assms(1) by (simp add: buf_ok_def off_def)
  have same: "?b = b" if "data = []" using that by simp
  show "append_bytes data b = Some (?b\<lparr>buf_ptr := ?p\<rparr>)"
    using assms(1) room ok(1)
    by (cases "data = []") (simp_all add: append_bytes_def store_bytes_def buf_ok_def same)
  have r: "off b + length data \<le> unat (buf_size ?b)" using room by simp
  note moved = buf_ok_move [OF okb ptr r]
  show "buf_ok (?b\<lparr>buf_ptr := ?p\<rparr>)" and "off (?b\<lparr>buf_ptr := ?p\<rparr>) = off b + length data"
    using moved by simp_all
  have old: "map (write_at (off b) data m) [0..<off b] = map m [0..<off b]" for m
    by (simp add: write_at_def)
  have new: "map (write_at (off b) data m) [off b..<off b + length data] = data" for m
    by (rule nth_equalityI) (simp_all add: write_at_def)
  show "contents (?b\<lparr>buf_ptr := ?p\<rparr>) = contents b @ data"
    using moved(3) by (simp add: contents_def upt_add_eq_append [OF le0] old new)
  show "buf_size (?b\<lparr>buf_ptr := ?p\<rparr>) = buf_size b" by simp
qed

lemma load_contents: "buf_ok b \<Longrightarrow> load_bytes b (buf_offset b) = Some (contents b)"
  using buf_okD(1,4) [of b]
  by (cases "buf_offset b = 0") (simp_all add: load_bytes_def contents_def buf_ok_def)

section \<open>Byte logs\<close>

text \<open>The interface the collecting procedures offer to the exporting ones: a store of bytes that is only
  ever extended. A client that appends a sequence of chunks finds them in order behind what was there.\<close>

locale byte_log =
  fixes log_inv :: "'b \<Rightarrow> bool" and log_bytes :: "'b \<Rightarrow> u8 list" and room :: "'b \<Rightarrow> nat"
    and log_append :: "u8 list \<Rightarrow> 'b \<Rightarrow> 'b option"
  assumes log_append_some:
    "log_inv b \<Longrightarrow> length data \<le> room b \<Longrightarrow>
       \<exists>b'. log_append data b = Some b' \<and> log_inv b' \<and> log_bytes b' = log_bytes b @ data
            \<and> room b' = room b - length data"
begin

fun append_all :: "u8 list list \<Rightarrow> 'b \<Rightarrow> 'b option" where
  "append_all [] b = Some b"
| "append_all (d # ds) b = log_append d b \<bind> append_all ds"

lemma append_all_bytes:
  "log_inv b \<Longrightarrow> length (concat ds) \<le> room b \<Longrightarrow>
   \<exists>b'. append_all ds b = Some b' \<and> log_inv b' \<and> log_bytes b' = log_bytes b @ concat ds"
proof (induction ds arbitrary: b)
  case Nil
  then show ?case by simp
next
  case (Cons d ds)
  from Cons.prems log_append_some [of b d] obtain b1 where
    b1: "log_append d b = Some b1" "log_inv b1" "log_bytes b1 = log_bytes b @ d" "room b1 = room b - length d"
    by auto
  with Cons.prems Cons.IH [of b1] show ?case by auto
qed

end

interpretation gb: byte_log buf_ok contents "\<lambda>b. unat (buf_remain b)" append_bytes
proof
  fix b and data :: "u8 list"
  assume "buf_ok b" and "length data \<le> unat (buf_remain b)"
  then obtain b' where "append_bytes data b = Some b'" "buf_ok b'" "contents b' = contents b @ data"
    "off b' = off b + length data" "buf_size b' = buf_size b"
    by (rule append_bytes_ok)
  with buf_okD(2) [of b] buf_okD(2) [of b'] \<open>buf_ok b\<close>
  show "\<exists>b'. append_bytes data b = Some b' \<and> buf_ok b' \<and> contents b' = contents b @ data \<and>
      unat (buf_remain b') = unat (buf_remain b) - length data" by simp
qed

section \<open>The fetch of the trace\<close>

text \<open>The bytes that a run of calls delivered into the program's buffers.\<close>

fun delivered_by :: "env \<Rightarrow> call list \<Rightarrow> call \<Rightarrow> u8 list" where
  "delivered_by E h (CS (Cs_get_trace_data d p n)) = snd (a_bytes E h (CS (Cs_get_trace_data d p n)))"
| "delivered_by E h (OS (Read fd n)) =
     (let (r, data) = a_bytes E h (OS (Read fd n)) in if r > 0 then data else [])"
| "delivered_by E h c = []"

fun delivered :: "env \<Rightarrow> call list \<Rightarrow> call list \<Rightarrow> u8 list" where
  "delivered E h [] = []"
| "delivered E h (c # cs) = delivered_by E h c @ delivered E (h @ [c]) cs"

lemma delivered_append: "delivered E h (cs @ ds) = delivered E h cs @ delivered E (h @ cs) ds"
  by (induction cs arbitrary: h) simp_all

definition only_mremaps :: "call list \<Rightarrow> bool" where
  "only_mremaps cs \<longleftrightarrow> (\<forall>c \<in> set cs. \<exists>x y z. c = OS (Mremap x y z))"

lemma delivered_mremaps: "only_mremaps cs \<Longrightarrow> delivered E h cs = []"
  by (induction cs arbitrary: h) (auto simp: only_mremaps_def)

text \<open>The calls of a loop that makes room; if it fails, the last of them has.\<close>

definition enlarged :: "env \<Rightarrow> bool \<Rightarrow> call list \<Rightarrow> call list \<Rightarrow> bool" where
  "enlarged E ok h cs \<longleftrightarrow> only_mremaps cs \<and> (\<not> ok \<longrightarrow> cs \<noteq> [] \<and> a_u64 E (h @ butlast cs) (last cs) = MAP_FAILED)"

lemma enlarged_Nil: "enlarged E True h []"
  by (simp add: enlarged_def only_mremaps_def)

lemma enlarged_Cons: "enlarged E ok (h @ [OS (Mremap x y z)]) cs \<Longrightarrow> enlarged E ok h (OS (Mremap x y z) # cs)"
  by (auto simp: enlarged_def only_mremaps_def)

lemma enlarged_failed: "a_u64 E h (OS (Mremap x y z)) = MAP_FAILED \<Longrightarrow> enlarged E False h [OS (Mremap x y z)]"
  by (simp add: enlarged_def only_mremaps_def)

text \<open>The loop that makes room ends: it fails, or it has kept the contents and made enough room.\<close>

lemma grow_trace_buf_ok:
  assumes "buf_ok b" and "mremap_contract E" and "0 \<le> len" and "len < 2 ^ 31"
  shows "returns (grow_trace_buf E len b s) (\<lambda>(ok, b') s'.
     buf_ok b' \<and> contents b' = contents b \<and> off b' = off b \<and> (ok \<longrightarrow> nat len \<le> unat (buf_remain b')) \<and>
     (\<exists>cs. s' = s\<lparr>hist := hist s @ cs\<rparr> \<and> enlarged E ok (hist s) cs))"
  using assms(1)
proof (induction "nat len - unat (buf_remain b)" arbitrary: b s rule: less_induct)
  case less
  have len: "unat (size_t_of_int len) = nat len"
    using assms(3,4) by (simp add: unat_size_t_of_int)
  let ?c = "OS (Mremap (buf b) (buf_size b) (buf_size b * 2))"
  let ?p = "a_u64 E (hist s) ?c"
  let ?b = "remap ?p (buf_size b * 2) b"
  let ?s = "s\<lparr>hist := hist s @ [?c]\<rparr>"
  show ?case
  proof (cases "size_t_of_int len > buf_remain b")
    case False
    then have "nat len \<le> unat (buf_remain b)" by (simp add: word_less_nat_alt len)
    with False less.prems show ?thesis
      by (subst grow_trace_buf.simps) (auto simp: enlarged_Nil intro: exI [of _ "[]"])
  next
    case True
    show ?thesis
    proof (cases "?p = MAP_FAILED")
      case failed: True
      with True less.prems show ?thesis
        by (subst grow_trace_buf.simps) (auto simp: ask_def enlarged_failed intro!: exI [of _ "[?c]"])
    next
      case False
      with assms(2) have map: "mapping_at ?p (buf_size b * 2)"
        by (auto simp: mremap_contract_def Let_def)
      note b' = buf_remap [OF less.prems map]
      have "unat (buf_remain b) < nat len" using True by (simp add: word_less_nat_alt len)
      moreover have "0 < unat (buf_size b)" using less.prems by (simp add: buf_ok_def)
      ultimately have "nat len - unat (buf_remain ?b) < nat len - unat (buf_remain b)"
        using b'(4) by simp
      from less.hyps [OF this b'(1), of ?s]
      have "returns (grow_trace_buf E len ?b ?s) (\<lambda>(ok, b') s'.
          buf_ok b' \<and> contents b' = contents b \<and> off b' = off b \<and> (ok \<longrightarrow> nat len \<le> unat (buf_remain b')) \<and>
          (\<exists>cs. s' = s\<lparr>hist := hist s @ cs\<rparr> \<and> enlarged E ok (hist s) cs))"
        by (rule returns_mono) (auto simp: b' enlarged_Cons intro!: exI [of _ "?c # cs" for cs])
      with True False show ?thesis
        by (subst grow_trace_buf.simps) (simp add: ask_def)
    qed
  qed
qed

text \<open>What CSAL promises of \<open>cs_get_buffer_unread_bytes\<close> and, when there is data, of
  \<open>cs_get_trace_data\<close>.\<close>

definition unread_contract :: "env \<Rightarrow> bool" where
  "unread_contract E \<longleftrightarrow> (\<forall>h d. let n = a_int E h (CS (Cs_get_buffer_unread_bytes d)) in 0 \<le> n \<and> n < 2 ^ 31)"

definition trace_data_contract :: "env \<Rightarrow> bool" where
  "trace_data_contract E \<longleftrightarrow> (\<forall>h d p n. let (r, data) = a_bytes E h (CS (Cs_get_trace_data d p n))
     in length data \<le> unat n \<and> r = int (length data))"

text \<open>\<open>fetch_calls E d h cs data\<close>: \<open>cs\<close> are the calls of one fetch from the sink \<open>d\<close>, and \<open>data\<close> is what it delivered. The sink is
  asked how much it holds; if the buffer can be enlarged to take that much, the sink is read once and emptied, and
  \<open>data\<close> is what this read answered; otherwise the sink is left alone and \<open>data\<close> is empty.\<close>

definition fetch_calls :: "env \<Rightarrow> cs_device \<Rightarrow> call list \<Rightarrow> call list \<Rightarrow> u8 list \<Rightarrow> bool" where
  "fetch_calls E d h cs data \<longleftrightarrow> (\<exists>grow. let unread = CS (Cs_get_buffer_unread_bytes d); h' = h @ unread # grow in
     (\<exists>p n. let read = CS (Cs_get_trace_data d p n) in enlarged E True (h @ [unread]) grow \<and>
        cs = unread # grow @ [read, CS (Cs_empty_trace_buffer d)] \<and> a_int E h unread \<le> int (unat n) \<and> data = snd (a_bytes E h' read)) \<or>
     enlarged E False (h @ [unread]) grow \<and> cs = unread # grow \<and> data = [])"

lemma fetch_calls_delivered: "fetch_calls E d h cs data \<Longrightarrow> delivered E h cs = data"
  by (auto simp: fetch_calls_def Let_def enlarged_def delivered_append delivered_mremaps)

lemma fetch_trace_ok:
  assumes "buf_ok (trace_buf s)" and "mremap_contract E" and "unread_contract E" and "trace_data_contract E"
  shows "returns (fetch_trace E s) (\<lambda>r s'. buf_ok (trace_buf s') \<and> (r = 0 \<or> r = -1) \<and>
     (\<exists>new pad data. s' = s\<lparr>hist := hist s @ new, trace_buf := trace_buf s'\<rparr> \<and>
        length pad = pad8 (off (trace_buf s)) \<and> fetch_calls E (etb (devices s)) (hist s) new data \<and> (r = -1 \<longrightarrow> data = []) \<and>
        contents (trace_buf s') = contents (trace_buf s) @ pad @ data))"
proof -
  let ?etb = "etb (devices s)"
  let ?u = "CS (Cs_get_buffer_unread_bytes ?etb)"
  let ?len = "a_int E (hist s) ?u"
  let ?b = "(trace_buf s)\<lparr>buf_ptr := ALIGN_UP (buf_ptr (trace_buf s)) 0x8\<rparr>"
  let ?s = "s\<lparr>hist := hist s @ [?u]\<rparr>"
  have len: "0 \<le> ?len" "?len < 2 ^ 31" using assms(3) by (auto simp: unread_contract_def Let_def)
  note al = buf_align [OF assms(1)]
  from al(3) obtain pad where pad: "contents ?b = contents (trace_buf s) @ pad"
    "length pad = pad8 (off (trace_buf s))" by blast
  from grow_trace_buf_ok [OF al(1) assms(2) len, of ?s] obtain ok b1 cs s1 where
    run: "grow_trace_buf E ?len ?b ?s = Some ((ok, b1), s1)"
    and b1: "buf_ok b1" "contents b1 = contents ?b" "ok \<Longrightarrow> nat ?len \<le> unat (buf_remain b1)"
    and cs: "enlarged E ok (hist s @ [?u]) cs" and s1: "s1 = s\<lparr>hist := hist s @ ?u # cs\<rparr>"
    by (auto elim!: returnsE)
  let ?g = "CS (Cs_get_trace_data ?etb (buf_ptr b1) (buf_remain b1))"
  let ?new = "?u # cs @ [?g, CS (Cs_empty_trace_buffer ?etb)]"
  obtain n data where nd: "a_bytes E (hist s1) ?g = (n, data)" by fastforce
  with assms(4) [unfolded trace_data_contract_def, rule_format, of "hist s1" ?etb "buf_ptr b1" "buf_remain b1"]
  have fits: "length data \<le> unat (buf_remain b1)" and n: "n = int (length data)" by simp_all
  from append_bytes_ok [OF b1(1) fits] obtain b2 where
    "append_bytes data b1 = Some b2" and b2: "buf_ok b2" "contents b2 = contents b1 @ data" .
  then obtain b3 where st: "store_bytes data b1 = Some b3" and b3: "b2 = b3\<lparr>buf_ptr := buf_ptr b3 + word_of_int n\<rparr>"
    by (auto simp: append_bytes_def bind_eq_Some_conv n)
  show ?thesis
  proof (cases ok)
    case False
    with cs have "fetch_calls E ?etb (hist s) (?u # cs) []" unfolding fetch_calls_def Let_def by (intro exI [of _ cs]) simp
    with False run s1 b1 pad show ?thesis
      by (simp add: fetch_trace_def ask_defs Let_def)
        (intro exI [of _ "?u # cs"] conjI; simp)
  next
    case True
    have "?len \<le> int (unat (buf_remain b1))" using b1(3) [OF True] by linarith
    with True cs nd s1 have "fetch_calls E ?etb (hist s) ?new data"
      unfolding fetch_calls_def Let_def by (intro exI [of _ cs] disjI1 exI [of _ "buf_ptr b1"] exI [of _ "buf_remain b1"]) simp
    moreover have "fetch_trace E s = Some (0, s\<lparr>hist := hist s @ ?new, trace_buf := b2\<rparr>)"
      using True run s1 nd st by (simp add: fetch_trace_def ask_defs Let_def b3)
    ultimately show ?thesis
      using b1 b2 pad by simp (intro exI [of _ ?new] conjI exI [of _ pad] exI [of _ data]; simp)
  qed
qed

section \<open>The fetch of the ksight events\<close>

text \<open>The kernel has memory for mappings of up to \<open>L\<close> bytes.\<close>

definition mremap_succeeds :: "env \<Rightarrow> nat \<Rightarrow> bool" where
  "mremap_succeeds E L \<longleftrightarrow>
     (\<forall>h old osz nsz. unat nsz \<le> L \<longrightarrow> mapping_at (a_u64 E h (OS (Mremap old osz nsz))) nsz)"

text \<open>\<open>read\<close> delivers as many bytes as it reports, and no more than it was asked for.\<close>

definition read_contract :: "env \<Rightarrow> int \<Rightarrow> bool" where
  "read_contract E fd \<longleftrightarrow> (\<forall>h n. let (r, data) = a_bytes E h (OS (Read fd n))
     in r > 0 \<longrightarrow> r = int (length data) \<and> length data \<le> unat n)"

fun is_read :: "call \<Rightarrow> bool" where
  "is_read (OS (Read _ _)) = True"
| "is_read _ = False"

definition reads :: "call list \<Rightarrow> nat" where
  "reads h = length (filter is_read h)"

text \<open>The non-blocking device runs dry: after \<open>N\<close> reads it has nothing more to give.\<close>

definition drains :: "env \<Rightarrow> int \<Rightarrow> nat \<Rightarrow> bool" where
  "drains E fd N \<longleftrightarrow> (\<forall>h n. N \<le> reads h \<longrightarrow> fst (a_bytes E h (OS (Read fd n))) \<le> 0)"

lemma expand_ksight_buf_ok:
  assumes "buf_ok b" and "mremap_succeeds E L" and "2 * unat (buf_size b) \<le> L"
  obtains b' cs where "expand_ksight_buf E b s = Some ((True, b'), s\<lparr>hist := hist s @ cs\<rparr>)"
    and "buf_ok b'" and "contents b' = contents b" and "only_mremaps cs"
    and "unat (buf_size b') \<le> 2 * unat (buf_size b)"
proof (cases "buf_remain b < of_nat sizeof_ksight_tag_event")
  case False
  then show ?thesis
    using that [of b "[]"] assms(1) by (simp add: expand_ksight_buf_def only_mremaps_def)
next
  case True
  let ?c = "OS (Mremap (buf b) (buf_size b) (buf_size b * 2))"
  have m: "mapping_at (a_u64 E (hist s) ?c) (buf_size b * 2)"
    using assms(2,3) buf_size_double [OF assms(1)] by (simp add: mremap_succeeds_def)
  have "unat (buf_size (remap p (buf_size b * 2) b)) = 2 * unat (buf_size b)" for p
    using buf_size_double [OF assms(1)] by (simp add: remap_def)
  with True mapping_at_not_failed [OF m] buf_remap [OF assms(1) m] show ?thesis
    using that [of "remap (a_u64 E (hist s) ?c) (buf_size b * 2) b" "[?c]"]
    by (simp add: expand_ksight_buf_def ask_def only_mremaps_def)
qed

lemma reads_append [simp]: "reads (h @ h') = reads h + reads h'"
  by (simp add: reads_def)

lemma reads_mremaps: "only_mremaps cs \<Longrightarrow> reads cs = 0"
  by (auto simp: reads_def only_mremaps_def filter_empty_conv)

lemma reads_read: "reads [OS (Read fd n)] = 1"
  by (simp add: reads_def)

lemma ksight_read_loop_ok:
  assumes "buf_ok b" and "mremap_succeeds E L" and "read_contract E fd" and "drains E fd N"
    and "unat (buf_size b) * 2 ^ (N - reads (hist s) + 1) \<le> L"
  shows "returns (ksight_read_loop E fd b s) (\<lambda>(r, b') s'. buf_ok b' \<and> (r = 0 \<or> r = -1) \<and>
     (\<exists>new. s' = s\<lparr>hist := hist s @ new\<rparr> \<and> contents b' = contents b @ delivered E (hist s) new))"
  using assms(1,5)
proof (induction "N - reads (hist s)" arbitrary: b s rule: less_induct)
  case less
  let ?k = "N - reads (hist s)"
  have "2 * unat (buf_size b) \<le> unat (buf_size b) * 2 ^ (?k + 1)" by simp
  with less.prems(2) have sz: "2 * unat (buf_size b) \<le> L" by linarith
  obtain b1 cs where ex: "expand_ksight_buf E b s = Some ((True, b1), s\<lparr>hist := hist s @ cs\<rparr>)"
    and b1: "buf_ok b1" "contents b1 = contents b" and cs: "only_mremaps cs"
    and sz1: "unat (buf_size b1) \<le> 2 * unat (buf_size b)"
    using expand_ksight_buf_ok [OF less.prems(1) assms(2) sz] by blast
  let ?c = "OS (Read fd (buf_remain b1))"
  let ?s = "s\<lparr>hist := hist s @ cs @ [?c]\<rparr>"
  obtain n data where nd: "a_bytes E (hist s @ cs) ?c = (n, data)" by fastforce
  have del: "delivered E (hist s) (cs @ [?c]) = (if n > 0 then data else [])"
    using nd cs by (simp add: delivered_append delivered_mremaps)
  show ?case
  proof (cases "n > 0")
    case False
    with nd ex b1 del show ?thesis
      by (subst ksight_read_loop.simps)
        (auto simp: ask_defs not_less intro!: exI [of _ "cs @ [?c]"])
  next
    case True
    with assms(3) nd have fits: "length data \<le> unat (buf_remain b1)" and n: "n = int (length data)"
      using assms(3) [unfolded read_contract_def, rule_format, of "hist s @ cs" "buf_remain b1"] by simp_all
    from append_bytes_ok [OF b1(1) fits] obtain b2 where
      "append_bytes data b1 = Some b2" and b2: "buf_ok b2" "contents b2 = contents b1 @ data" "buf_size b2 = buf_size b1" .
    then obtain b3 where st: "store_bytes data b1 = Some b3"
      and b3: "b3\<lparr>buf_ptr := buf_ptr b3 + word_of_int n\<rparr> = b2"
      by (auto simp: append_bytes_def bind_eq_Some_conv n)
    have lt: "reads (hist s @ cs) < N"
      using assms(4) [unfolded drains_def, rule_format, of "hist s @ cs" "buf_remain b1"] nd True
      by (cases "N \<le> reads (hist s @ cs)") simp_all
    have k: "?k = Suc (N - reads (hist ?s))"
      using lt reads_mremaps [OF cs] reads_read [of fd "buf_remain b1"] by simp
    then have dec: "N - reads (hist ?s) < ?k" by simp
    have "unat (buf_size b2) * 2 ^ (N - reads (hist ?s) + 1) \<le> unat (buf_size b) * 2 ^ (?k + 1)"
      using sz1 b2(3) unfolding k by simp
    with less.prems(2) have "unat (buf_size b2) * 2 ^ (N - reads (hist ?s) + 1) \<le> L" by linarith
    from less.hyps [OF dec b2(1) this]
    have "returns (ksight_read_loop E fd b2 ?s) (\<lambda>(r, b') s'. buf_ok b' \<and> (r = 0 \<or> r = -1) \<and>
       (\<exists>new. s' = s\<lparr>hist := hist s @ new\<rparr> \<and> contents b' = contents b @ delivered E (hist s) new))"
    proof (rule returns_mono)
      fix p s'
      assume "(case p of (r, b') \<Rightarrow> \<lambda>s'. buf_ok b' \<and> (r = 0 \<or> r = -1) \<and>
        (\<exists>new. s' = ?s\<lparr>hist := hist ?s @ new\<rparr> \<and> contents b' = contents b2 @ delivered E (hist ?s) new)) s'"
      then obtain r b' new where p: "p = (r, b')" "buf_ok b'" "r = 0 \<or> r = -1"
        "s' = ?s\<lparr>hist := hist ?s @ new\<rparr>" "contents b' = contents b2 @ delivered E (hist ?s) new"
        by (cases p) auto
      moreover have "delivered E (hist s) ((cs @ [?c]) @ new) = data @ delivered E (hist ?s) new"
        using True del by (simp only: delivered_append [of E "hist s"]) simp
      ultimately have q: "s' = s\<lparr>hist := hist s @ ((cs @ [?c]) @ new)\<rparr> \<and>
          contents b' = contents b @ delivered E (hist s) ((cs @ [?c]) @ new)"
        using b2 b1 by simp
      from p(2,3) q show "(case p of (r, b') \<Rightarrow> \<lambda>s'. buf_ok b' \<and> (r = 0 \<or> r = -1) \<and>
        (\<exists>new. s' = s\<lparr>hist := hist s @ new\<rparr> \<and> contents b' = contents b @ delivered E (hist s) new)) s'"
        unfolding p(1) prod.case by (intro conjI exI [of _ "(cs @ [?c]) @ new"]) (simp_all only: simp_thms)
    qed
    with True nd ex st b3 show ?thesis
      by (subst ksight_read_loop.simps) (simp add: ask_defs)
  qed
qed

lemma fetch_ksight_events_ok:
  assumes "buf_ok (ksight_buf s)" and "mremap_succeeds E L" and "\<forall>fd. read_contract E fd" and "\<forall>fd. drains E fd N"
    and "unat (buf_size (ksight_buf s)) * 2 ^ (N + 1) \<le> L"
  shows "returns (fetch_ksight_events E s) (\<lambda>r s'. buf_ok (ksight_buf s') \<and> (r = 0 \<or> r = -1) \<and>
     (\<exists>new pad. s' = s\<lparr>hist := hist s @ new, ksight_buf := ksight_buf s'\<rparr> \<and> length pad < 8 \<and>
        contents (ksight_buf s') = contents (ksight_buf s) @ pad @ delivered E (hist s) new))"
proof -
  let ?o = "OS (Open ''/dev/ksight'')"
  let ?fd = "a_int E (hist s) ?o"
  let ?b = "(ksight_buf s)\<lparr>buf_ptr := ALIGN_UP (buf_ptr (ksight_buf s)) 0x8\<rparr>"
  let ?s = "s\<lparr>hist := hist s @ [?o]\<rparr>"
  note al = buf_align [OF assms(1)]
  from al(3) obtain pad where pad: "contents ?b = contents (ksight_buf s) @ pad" "length pad < 8"
    using pad8_less by metis
  have "read_contract E ?fd" "drains E ?fd N" using assms(3,4) by simp_all
  moreover have "unat (buf_size ?b) * 2 ^ (N - reads (hist ?s) + 1) \<le> L"
  proof -
    have "(2 :: nat) ^ (N - reads (hist ?s) + 1) \<le> 2 ^ (N + 1)" by (rule power_increasing) simp_all
    from mult_le_mono2 [OF this, of "unat (buf_size (ksight_buf s))"] assms(5)
    have "unat (buf_size (ksight_buf s)) * 2 ^ (N - reads (hist ?s) + 1) \<le> L" by (rule le_trans)
    then show ?thesis by simp
  qed
  ultimately have "returns (ksight_read_loop E ?fd ?b ?s) (\<lambda>(r, b') s'. buf_ok b' \<and> (r = 0 \<or> r = -1) \<and>
     (\<exists>new. s' = ?s\<lparr>hist := hist ?s @ new\<rparr> \<and> contents b' = contents ?b @ delivered E (hist ?s) new))"
    by (rule ksight_read_loop_ok [OF al(1) assms(2)])
  then obtain r b new where
    run: "ksight_read_loop E ?fd ?b ?s = Some ((r, b), s\<lparr>hist := hist s @ ?o # new\<rparr>)"
    and b: "buf_ok b" "r = 0 \<or> r = -1" "contents b = contents ?b @ delivered E (hist s @ [?o]) new"
    by (auto elim!: returnsE)
  have d: "delivered E (hist s) (?o # new @ [OS (Close ?fd)]) = delivered E (hist s @ [?o]) new"
    by (simp add: delivered_append)
  show ?thesis
  proof (cases "?fd < 0")
    case True
    then show ?thesis using assms(1)
      by (auto simp: fetch_ksight_events_def ask_defs intro!: exI [of _ "[?o]"] exI [of _ "[] :: u8 list"])
  next
    case False
    then have "fetch_ksight_events E s =
        Some (r, s\<lparr>hist := hist s @ (?o # new @ [OS (Close ?fd)]), ksight_buf := b\<rparr>)"
      using run by (simp add: fetch_ksight_events_def ask_defs Let_def)
    then show ?thesis
      using b pad d by (auto intro!: exI [of _ "?o # new @ [OS (Close ?fd)]"] exI [of _ pad])
  qed
qed

section \<open>Allocation\<close>

lemma alloc_buf_ok:
  assumes "mapping_at p DEFAULT_TRACE_SIZE"
  shows "fst (alloc_buf p b) = 0" and "buf_ok (snd (alloc_buf p b))" and "contents (snd (alloc_buf p b)) = []"
proof -
  have p: "p \<noteq> MAP_FAILED" "p \<noteq> 0" using mapping_at_not_failed [OF assms] by simp_all
  have sz: "unat DEFAULT_TRACE_SIZE = 0x80000" by (simp add: DEFAULT_TRACE_SIZE_def)
  have "8 dvd unat p" using assms by (auto simp: mapping_at_def dest: dvd_trans [of 8 "0x1000", rotated])
  with p assms sz show "fst (alloc_buf p b) = 0" "buf_ok (snd (alloc_buf p b))"
    "contents (snd (alloc_buf p b)) = []"
    by (simp_all add: alloc_buf_def Let_def buf_ok_def off_def contents_def mapping_at_def)
qed

section \<open>Sample inputs\<close>

text \<open>A sink and a device that deliver four bytes, a kernel with 2 GiB of memory, and a buffer that
  holds five bytes.\<close>

definition four_bytes_env :: env where
  "four_bytes_env = sample_env\<lparr>a_int := (\<lambda>h c. case c of OS (Open _) \<Rightarrow> 3 | OS (Fopen _ _) \<Rightarrow> 5 | _ \<Rightarrow> 4),
     a_u64 := (\<lambda>h c. case c of OS (Mremap _ _ n) \<Rightarrow> if unat n \<le> 2 ^ 31 then 0x200000 else MAP_FAILED
                     | _ \<Rightarrow> 0x200000),
     a_bytes := (\<lambda>h c. case c of
         CS (Cs_get_trace_data d p n) \<Rightarrow> if 4 \<le> unat n then (4, [1, 2, 3, 4]) else (0, [])
       | OS (Read fd n) \<Rightarrow> if reads h = 0 \<and> 4 \<le> unat n then (4, [1, 2, 3, 4]) else (0, [])
       | _ \<Rightarrow> (0, [])),
     a_text := (\<lambda>h c. Some ''/tmp'')\<rparr>"

definition five_bytes_buf :: growbuf where
  "five_bytes_buf = \<lparr>buf = 0x10000, buf_size = 0x80000, buf_ptr = 0x10005, buf_mem = of_nat, buf_live = True\<rparr>"

definition five_bytes_state :: globals where
  "five_bytes_state = initial_globals\<lparr>trace_buf := five_bytes_buf, ksight_buf := five_bytes_buf, devices := sample_devices\<rparr>"

lemma five_bytes_ok: "buf_ok five_bytes_buf"
  by (simp add: five_bytes_buf_def buf_ok_def VA_LIMIT_def off_def)

lemma five_bytes_contents: "contents five_bytes_buf = [0, 1, 2, 3, 4]"
  by (simp add: five_bytes_buf_def contents_def off_def upt_rec)

lemma five_bytes_state_bufs [simp]:
  "trace_buf five_bytes_state = five_bytes_buf" "ksight_buf five_bytes_state = five_bytes_buf"
  "devices five_bytes_state = sample_devices" "hist five_bytes_state = []"
  by (simp_all add: five_bytes_state_def initial_globals_def)

lemma four_bytes_contracts:
  "unread_contract four_bytes_env" "trace_data_contract four_bytes_env"
  "read_contract four_bytes_env fd" "drains four_bytes_env fd 1"
  "mremap_contract four_bytes_env" "mremap_succeeds four_bytes_env (2 ^ 31)"
  by (auto simp: four_bytes_env_def unread_contract_def trace_data_contract_def read_contract_def drains_def
      mremap_contract_def mremap_succeeds_def mapping_at_def VA_LIMIT_def Let_def)

lemma four_bytes_answers [simp]:
  "a_text four_bytes_env h c = Some ''/tmp''" "a_int four_bytes_env h (OS (Fopen f m)) = 5"
  "a_u64 four_bytes_env h (OS (Mmap n)) = 0x200000"
  by (simp_all add: four_bytes_env_def)

section \<open>Properties\<close>

text \<open>C3. A fetch of the trace always ends. If CSAL and the kernel keep their contracts, it leaves a
  well-formed buffer whose contents are the former contents, fewer than eight bytes of alignment, and
  then exactly the bytes the sink delivered; it changes no other variable; on failure it has consumed
  nothing.\<close>

theorem fetch_trace_collects:
  assumes "buf_ok (trace_buf s)" and "mremap_contract E" and "unread_contract E" and "trace_data_contract E"
  shows "\<exists>r s' new pad. fetch_trace E s = Some (r, s') \<and> (r = 0 \<or> r = -1) \<and> buf_ok (trace_buf s') \<and>
     s' = s\<lparr>hist := hist s @ new, trace_buf := trace_buf s'\<rparr> \<and> length pad < 8 \<and>
     contents (trace_buf s') = contents (trace_buf s) @ pad @ delivered E (hist s) new \<and>
     (r = -1 \<longrightarrow> delivered E (hist s) new = [])"
  using fetch_trace_ok [OF assms] pad8_less fetch_calls_delivered by (elim returnsE) metis

theorem fetch_trace_collects_witness:
  "\<exists>r s' new pad. fetch_trace four_bytes_env five_bytes_state = Some (r, s') \<and> buf_ok (trace_buf s') \<and>
     length pad < 8 \<and> contents (trace_buf s') = [0, 1, 2, 3, 4] @ pad @ delivered four_bytes_env [] new"
  using fetch_trace_collects [of five_bytes_state four_bytes_env] four_bytes_contracts
  by (auto simp: five_bytes_ok five_bytes_contents)

text \<open>C24. If \<open>cs_get_trace_data\<close> reports an error by a negative number, the fetch reports success and has
  moved the buffer pointer back, so that bytes collected by earlier fetches are lost.\<close>

theorem fetch_trace_error_drops_bytes:
  assumes "buf_ok (trace_buf s)" and "8 dvd off (trace_buf s)" and "0 < k" and "k \<le> off (trace_buf s)"
    and "\<And>h. a_int E h (CS (Cs_get_buffer_unread_bytes (etb (devices s)))) = 0"
    and "\<And>h p n. a_bytes E h (CS (Cs_get_trace_data (etb (devices s)) p n)) = (- int k, [])"
  shows "\<exists>s'. fetch_trace E s = Some (0, s') \<and>
     contents (trace_buf s') = take (off (trace_buf s) - k) (contents (trace_buf s))"
proof -
  let ?b = "trace_buf s" and ?p = "ALIGN_UP (buf_ptr (trace_buf s)) 0x8"
  note al = buf_align [OF assms(1)]
  have "pad8 (off ?b) = 0" using assms(2) unfolding pad8_def by (auto elim!: dvdE)
  with al have o: "off (?b\<lparr>buf_ptr := ?p\<rparr>) = off ?b" and ok: "buf_ok (?b\<lparr>buf_ptr := ?p\<rparr>)" by simp_all
  have p: "unat ?p = unat (buf ?b) + off ?b" using buf_okD(3) [OF ok] o by simp
  have le: "unat (of_nat k :: u64) = k"
    using assms(1,4) by (simp add: unat_of_nat buf_ok_def VA_LIMIT_def)
  have q: "unat (?p - of_nat k) = unat (buf ?b) + (off ?b - k)"
    using assms(4) p le by (subst unat_word_sub_no_wrap) simp_all
  have "off ?b - k \<le> unat (buf_size ?b)" using buf_okD(4) [OF assms(1)] by simp
  note mv = buf_ok_move(3) [OF assms(1) q this]
  have "\<exists>h. fetch_trace E s = Some (0, s\<lparr>hist := h, trace_buf := ?b\<lparr>buf_ptr := ?p - of_nat k\<rparr>\<rparr>)"
    using assms(5,6) by (simp add: fetch_trace_def ask_defs grow_trace_buf.simps store_bytes_def) (rule exI, rule refl)
  then show ?thesis using mv by (auto simp: contents_def take_map)
qed

definition failing_sink_env :: env where
  "failing_sink_env = sample_env\<lparr>a_bytes := (\<lambda>h c. (-1, []))\<rparr>"

theorem fetch_trace_error_drops_bytes_witness:
  "\<exists>s'. fetch_trace failing_sink_env (five_bytes_state\<lparr>trace_buf := five_bytes_buf\<lparr>buf_ptr := 0x10008\<rparr>\<rparr>) = Some (0, s') \<and>
     contents (trace_buf s') = [0, 1, 2, 3, 4, 5, 6]"
proof -
  let ?s = "five_bytes_state\<lparr>trace_buf := five_bytes_buf\<lparr>buf_ptr := 0x10008\<rparr>\<rparr>"
  have "buf_ok (trace_buf ?s)" "off (trace_buf ?s) = 8"
    by (simp_all add: five_bytes_buf_def buf_ok_def VA_LIMIT_def off_def)
  moreover have "contents (trace_buf ?s) = [0, 1, 2, 3, 4, 5, 6, 7]"
    by (simp add: five_bytes_buf_def contents_def off_def upt_rec)
  ultimately show ?thesis
    using fetch_trace_error_drops_bytes [of ?s 1 failing_sink_env]
    by (simp add: failing_sink_env_def sample_int_def)
qed

text \<open>C22. A fetch of the ksight events ends as soon as the device has nothing more to give. If the kernel
  keeps the contracts of \<open>mremap\<close> and \<open>read\<close> and has memory for the doubled mappings, the buffer is
  well formed afterwards and holds its former contents, fewer than eight bytes of alignment and exactly
  the bytes that were read, however often it had to be enlarged.\<close>

theorem fetch_ksight_events_collects:
  assumes "buf_ok (ksight_buf s)" and "mremap_succeeds E L" and "\<forall>fd. read_contract E fd" and "\<forall>fd. drains E fd N"
    and "unat (buf_size (ksight_buf s)) * 2 ^ (N + 1) \<le> L"
  shows "\<exists>r s' new pad. fetch_ksight_events E s = Some (r, s') \<and> (r = 0 \<or> r = -1) \<and> buf_ok (ksight_buf s') \<and>
     s' = s\<lparr>hist := hist s @ new, ksight_buf := ksight_buf s'\<rparr> \<and> length pad < 8 \<and>
     contents (ksight_buf s') = contents (ksight_buf s) @ pad @ delivered E (hist s) new"
  using fetch_ksight_events_ok [OF assms] by (elim returnsE) metis

theorem fetch_ksight_events_collects_witness:
  "\<exists>r s' new pad. fetch_ksight_events four_bytes_env five_bytes_state = Some (r, s') \<and> buf_ok (ksight_buf s') \<and>
     length pad < 8 \<and> contents (ksight_buf s') = [0, 1, 2, 3, 4] @ pad @ delivered four_bytes_env [] new"
proof -
  have "unat (buf_size (ksight_buf five_bytes_state)) * 2 ^ (1 + 1) \<le> 2 ^ 31"
    by (simp add: five_bytes_buf_def)
  from fetch_ksight_events_collects [OF _ four_bytes_contracts(6) _ _ this] show ?thesis
    using four_bytes_contracts by (auto simp: five_bytes_ok five_bytes_contents)
qed

text \<open>C23. An export of a well-formed buffer ends. When the file can be opened it writes the collected
  bytes, all of them and nothing else, to \<open>cwd/name\<close> and returns 0; otherwise it writes nothing and
  returns -1.\<close>

theorem export_trace_writes_contents:
  assumes "buf_ok (trace_buf s)"
  shows "export_trace E name s =
    (case a_text E (hist s) (OS Getcwd) of
       None \<Rightarrow> Some (-1, s\<lparr>hist := hist s @ [OS Getcwd]\<rparr>)
     | Some cwd \<Rightarrow>
         let opn = OS (Fopen (take (PATH_MAX - 1) (cwd @ ''/'' @ name)) ''wb''); fp = a_int E (hist s @ [OS Getcwd]) opn
         in if fp = 0 then Some (-1, s\<lparr>hist := hist s @ [OS Getcwd, opn]\<rparr>)
            else Some (0, s\<lparr>hist := hist s @ [OS Getcwd, opn, OS (Fwrite fp (contents (trace_buf s))), OS (Fclose fp)]\<rparr>))"
  using load_contents [OF assms]
  by (simp add: export_trace_def export_buf_def ask_defs snprintf_def Let_def split: option.split)

theorem export_trace_writes_contents_witness:
  "buf_ok (trace_buf five_bytes_state) \<and>
   (\<exists>s'. export_trace four_bytes_env ''cstrace.bin'' five_bytes_state = Some (0, s') \<and>
      hist s' = [OS Getcwd, OS (Fopen ''/tmp/cstrace.bin'' ''wb''), OS (Fwrite 5 [0, 1, 2, 3, 4]), OS (Fclose 5)])"
  using export_trace_writes_contents [of five_bytes_state four_bytes_env "''cstrace.bin''"]
  by (simp add: five_bytes_ok five_bytes_contents PATH_MAX_def)

text \<open>A successful allocation gives an empty well-formed buffer. A failed one returns -1 and leaves the
  size and the pointer, but the base address is then \<open>MAP_FAILED\<close>.\<close>

theorem alloc_trace_buf_outcome:
  assumes "p = a_u64 E (hist s) (OS (Mmap DEFAULT_TRACE_SIZE))"
    and "p = MAP_FAILED \<or> mapping_at p DEFAULT_TRACE_SIZE"
  shows "\<exists>r b. alloc_trace_buf E s = Some (r, s\<lparr>hist := hist s @ [OS (Mmap DEFAULT_TRACE_SIZE)], trace_buf := b\<rparr>) \<and>
     (if p = MAP_FAILED
      then r = -1 \<and> buf b = MAP_FAILED \<and> buf_size b = buf_size (trace_buf s) \<and> buf_ptr b = buf_ptr (trace_buf s)
      else r = 0 \<and> buf_ok b \<and> contents b = [])"
proof (cases "p = MAP_FAILED")
  case True
  then show ?thesis using assms(1)
    by (intro exI [of _ "-1"] exI [of _ "snd (alloc_buf p (trace_buf s))"])
      (simp add: alloc_trace_buf_def ask_def alloc_buf_def)
next
  case False
  with assms alloc_buf_ok [of p "trace_buf s"] show ?thesis
    by (intro exI [of _ 0] exI [of _ "snd (alloc_buf p (trace_buf s))"])
      (simp add: alloc_trace_buf_def ask_def case_prod_beta)
qed

theorem alloc_trace_buf_outcome_witness:
  "\<exists>s'. alloc_trace_buf four_bytes_env five_bytes_state = Some (0, s') \<and> buf_ok (trace_buf s') \<and>
     contents (trace_buf s') = []"
proof -
  have a: "(0x200000 :: u64) = a_u64 four_bytes_env (hist five_bytes_state) (OS (Mmap DEFAULT_TRACE_SIZE))"
    by (simp add: four_bytes_env_def)
  have m: "(0x200000 :: u64) = MAP_FAILED \<or> mapping_at 0x200000 DEFAULT_TRACE_SIZE"
    by (simp add: mapping_at_def VA_LIMIT_def DEFAULT_TRACE_SIZE_def)
  from alloc_trace_buf_outcome [OF a m] show ?thesis by (auto simp: MAP_FAILED_def)
qed

text \<open>C25. The test of \<open>mremap\<close> in the ksight loop is the wrong one: when the kernel has no memory for a
  larger mapping, the loop goes on with \<open>MAP_FAILED\<close> as the buffer. If the device then has nothing more to
  give, the fetch reports success, and the export that follows accesses the unmapped address.\<close>

theorem ksight_mremap_failure_undetected:
  assumes "buf_ok (ksight_buf s)" and "8 dvd off (ksight_buf s)" and "0 < off (ksight_buf s)"
    and "buf_remain (ksight_buf s) < of_nat sizeof_ksight_tag_event"
    and "\<And>h. a_int E h (OS (Open ''/dev/ksight'')) = fd" and "0 \<le> fd"
    and "\<And>h old osz nsz. a_u64 E h (OS (Mremap old osz nsz)) = MAP_FAILED"
    and "\<And>h n. a_bytes E h (OS (Read fd n)) = (-1, [])" and "\<And>h. a_errno E h = EAGAIN"
    and "\<And>h. a_text E h (OS Getcwd) = Some cwd" and "\<And>h f m. a_int E h (OS (Fopen f m)) \<noteq> 0"
  shows "\<exists>s'. fetch_ksight_events E s = Some (0, s') \<and> export_ksight E name s' = None"
proof -
  let ?b = "ksight_buf s" and ?p = "ALIGN_UP (buf_ptr (ksight_buf s)) 0x8"
  note al = buf_align [OF assms(1)]
  have "pad8 (off ?b) = 0" using assms(2) unfolding pad8_def by (auto elim!: dvdE)
  with al have o: "off (?b\<lparr>buf_ptr := ?p\<rparr>) = off ?b" and ok: "buf_ok (?b\<lparr>buf_ptr := ?p\<rparr>)" by simp_all
  from buf_okD(3) [OF ok] buf_okD(3) [OF assms(1)] o have "unat ?p = unat (buf_ptr ?b)" by simp
  then have p: "?p = buf_ptr ?b" by (simp add: word_unat_eq_iff)
  let ?b' = "remap MAP_FAILED (buf_size ?b * 2) ?b"
  have bp: "?b\<lparr>buf_ptr := ?p\<rparr> = ?b" using p by simp
  have ex: "expand_ksight_buf E ?b w =
      Some ((True, ?b'), w\<lparr>hist := hist w @ [OS (Mremap (buf ?b) (buf_size ?b) (buf_size ?b * 2))]\<rparr>)"
    for w :: "'a globals_scheme"
    using assms(4,7) by (simp add: expand_ksight_buf_def ask_def MAP_FAILED_def)
  have loop: "\<exists>h. ksight_read_loop E fd ?b w = Some ((0, ?b'), w\<lparr>hist := h\<rparr>)" for w :: "'a globals_scheme"
    using assms(8,9) by (subst ksight_read_loop.simps) (auto simp: ex ask_def)
  have "\<exists>h. fetch_ksight_events E s = Some (0, s\<lparr>hist := h, ksight_buf := ?b'\<rparr>)"
    using loop [of "s\<lparr>hist := hist s @ [OS (Open ''/dev/ksight'')]\<rparr>"] assms(5,6)
    by (auto simp: fetch_ksight_events_def ask_defs bp Let_def)
  moreover have "buf_offset ?b' \<noteq> 0"
  proof
    assume "buf_offset ?b' = 0"
    then have "buf_offset ?b = 0" by (simp add: buf_offset_def remap_def)
    then show False using buf_okD(1) [OF assms(1)] assms(3) by simp
  qed
  then have "load_bytes ?b' (buf_offset ?b') = None"
    by (simp add: load_bytes_def remap_def)
  ultimately show ?thesis
    using assms(10,11) by (auto simp: export_ksight_def export_buf_def ask_defs)
qed

text \<open>A full buffer, and a kernel without memory.\<close>

definition full_state :: globals where
  "full_state = five_bytes_state\<lparr>ksight_buf := five_bytes_buf\<lparr>buf_ptr := 0x90000\<rparr>\<rparr>"

definition no_memory_env :: env where
  "no_memory_env = four_bytes_env\<lparr>a_u64 := (\<lambda>h c. MAP_FAILED), a_bytes := (\<lambda>h c. (-1, [])), a_errno := (\<lambda>h. EAGAIN)\<rparr>"

theorem ksight_mremap_failure_undetected_witness:
  "\<exists>s'. fetch_ksight_events no_memory_env full_state = Some (0, s') \<and>
     export_ksight no_memory_env DEFAULT_KSIGHT_NAME s' = None"
proof (rule ksight_mremap_failure_undetected [where fd = 3 and cwd = "''/tmp''"])
  show "buf_ok (ksight_buf full_state)" "8 dvd off (ksight_buf full_state)" "0 < off (ksight_buf full_state)"
    "buf_remain (ksight_buf full_state) < of_nat sizeof_ksight_tag_event"
    by (simp_all add: full_state_def five_bytes_buf_def buf_ok_def VA_LIMIT_def off_def buf_remain_def
        buf_offset_def sizeof_ksight_tag_event_def sizeof_ksight_object_def)
qed (simp_all add: no_memory_env_def four_bytes_env_def)

end
