(* ===== verification/CpuAffinity.thy ===== *)
theory CpuAffinity
  imports CText Environment
begin

text \<open>
  The choice of a CPU for the traced process (the CPU affinities section of \<open>src/utils.c\<close>):
  \<open>set_cpu_affinity\<close>, \<open>find_free_cpu\<close>, \<open>set_core_cpus\<close> and \<open>get_preferred_cpu\<close>. A CPU set is a set of
  numbers together with the size in bytes of the allocated mask, which bounds what the macros set
  and test. The results say which CPU is chosen, in terms of the text in \<open>/proc\<close> and sysfs.
\<close>

section \<open>CPU sets\<close>

definition CPU_ALLOC_SIZE :: "int \<Rightarrow> nat" where
  "CPU_ALLOC_SIZE n = (nat n + 63) div 64 * 8"

text \<open>The macros convert the CPU number to \<open>size_t\<close> and ignore it beyond the mask.\<close>

definition CPU_SET_S :: "int \<Rightarrow> nat \<Rightarrow> nat set \<Rightarrow> nat set" where
  "CPU_SET_S cpu setsize S =
     (let c = unat (size_t_of_int cpu) in if c < 8 * setsize then insert c S else S)"

definition CPU_ISSET_S :: "nat \<Rightarrow> nat \<Rightarrow> nat set \<Rightarrow> bool" where
  "CPU_ISSET_S c setsize S \<longleftrightarrow> c < 8 * setsize \<and> c \<in> S"

text \<open>The new set is empty; the result is its size, or \<open>None\<close> for the null pointer.\<close>

definition alloc_cpu_set :: "env \<Rightarrow> 'z world_scheme \<Rightarrow> (nat option \<times> 'z world_scheme) option" where
  "alloc_cpu_set E s = do {
     (nprocs, s) \<leftarrow> os_int E Get_nprocs s;
     (p, s) \<leftarrow> os_int E (Cpu_alloc (nat nprocs)) s;
     Some (if p = 0 then None else Some (CPU_ALLOC_SIZE nprocs), s)
   }"

definition set_cpu_affinity :: "env \<Rightarrow> int \<Rightarrow> int \<Rightarrow> 'z world_scheme \<Rightarrow> (int \<times> 'z world_scheme) option" where
  "set_cpu_affinity E cpu pid s = do {
     (setsize, s) \<leftarrow> alloc_cpu_set E s;
     case setsize of
       None \<Rightarrow> Some (-1, s)
     | Some setsize \<Rightarrow> do {
         (r, s) \<leftarrow> os_int E (Sched_setaffinity pid (CPU_SET_S cpu setsize {})) s;
         Some (if r < 0 then -1 else 0, s)
       }
   }"

section \<open>A CPU to which no process is bound\<close>

definition MAX_LINE :: nat where "MAX_LINE = 8192"
definition MAX_CPUS :: nat where "MAX_CPUS = 4096"

definition numeric_name :: "string \<Rightarrow> bool" where
  "numeric_name d_name \<longleftrightarrow> d_name \<noteq> [] \<and> isdigit (hd d_name)"

text \<open>The loop over the lines of a status file: the CPU to flag, if any.\<close>

fun scan_status :: "string list \<Rightarrow> bool \<Rightarrow> nat option" where
  "scan_status [] has_vmsize = None"
| "scan_status (l # ls) has_vmsize =
     (let tmp = cstr l;
          has_vmsize = (has_vmsize \<or> take 8 tmp = ''VmSize:'' @ [CHR 0x09])
      in if take 19 tmp = ''Cpus_allowed_list:'' @ [CHR 0x09] \<and> strchr tmp (CHR ''-'') = None \<and> strchr tmp (CHR '','') = None
         then case scan_u (drop 19 tmp) of
                Some (hval, _) \<Rightarrow> if unat hval < MAX_CPUS \<and> has_vmsize then Some (unat hval) else scan_status ls has_vmsize
              | None \<Rightarrow> scan_status ls has_vmsize
         else scan_status ls has_vmsize)"

definition status_cpu :: "string \<Rightarrow> nat option" where
  "status_cpu t = scan_status (fgets_all (MAX_LINE - 2) t) False"

definition task_path :: "string \<Rightarrow> string" where
  "task_path proc_name = snprintf PATH_MAX (''/proc/'' @ proc_name @ ''/task'')"

definition status_path :: "string \<Rightarrow> string \<Rightarrow> string" where
  "status_path proc_name task_name = snprintf PATH_MAX (''/proc/'' @ proc_name @ ''/task/'' @ task_name @ ''/status'')"

fun scan_tasks ::
  "env \<Rightarrow> string \<Rightarrow> string list \<Rightarrow> nat set \<Rightarrow> 'z world_scheme \<Rightarrow> (nat set \<times> 'z world_scheme) option" where
  "scan_tasks E proc_name [] cpu_used s = Some (cpu_used, s)"
| "scan_tasks E proc_name (t # ts) cpu_used s =
     (if \<not> numeric_name t then scan_tasks E proc_name ts cpu_used s
      else do {
        (status_fp, s) \<leftarrow> os_int E (Fopen (status_path proc_name t) ''r'') s;
        if status_fp = 0 then scan_tasks E proc_name ts cpu_used s
        else do {
          (text, s) \<leftarrow> ask (a_text E) (OS (Read_text (status_path proc_name t))) s;
          (_, s) \<leftarrow> os_int E (Fclose status_fp) s;
          scan_tasks E proc_name ts (cpu_used \<union> set_option (status_cpu (stream_text text))) s
        }
      })"

fun scan_procs :: "env \<Rightarrow> string list \<Rightarrow> nat set \<Rightarrow> 'z world_scheme \<Rightarrow> (nat set \<times> 'z world_scheme) option" where
  "scan_procs E [] cpu_used s = Some (cpu_used, s)"
| "scan_procs E (p # ps) cpu_used s =
     (if \<not> numeric_name p then scan_procs E ps cpu_used s
      else do {
        (tasks, s) \<leftarrow> ask (a_dir E) (OS (Opendir (task_path p))) s;
        case tasks of
          None \<Rightarrow> scan_procs E ps cpu_used s
        | Some ts \<Rightarrow> do {
            (cpu_used, s) \<leftarrow> scan_tasks E p ts cpu_used s;
            (_, s) \<leftarrow> os_int E (Closedir (task_path p)) s;
            scan_procs E ps cpu_used s
          }
      })"

text \<open>The final loop. The array has \<open>MAX_CPUS\<close> elements; reading beyond it is no normal end.\<close>

fun first_free :: "nat set \<Rightarrow> nat list \<Rightarrow> int option" where
  "first_free cpu_used [] = Some (-1)"
| "first_free cpu_used (i # is) =
     (if i \<ge> MAX_CPUS then None else if i \<notin> cpu_used then Some (int i) else first_free cpu_used is)"

definition find_free_cpu :: "env \<Rightarrow> 'z world_scheme \<Rightarrow> (int \<times> 'z world_scheme) option" where
  "find_free_cpu E s = do {
     (nprocs, s) \<leftarrow> os_int E Sysconf_nprocs s;
     if nprocs < 2 then Some (0, s)
     else do {
       (procs, s) \<leftarrow> ask (a_dir E) (OS (Opendir ''/proc'')) s;
       case procs of
         None \<Rightarrow> Some (-1, s)
       | Some ps \<Rightarrow> do {
           (cpu_used, s) \<leftarrow> scan_procs E ps {} s;
           (_, s) \<leftarrow> os_int E (Closedir ''/proc'') s;
           i \<leftarrow> first_free cpu_used [0..<nat nprocs];
           Some (i, s)
         }
     }
   }"

section \<open>A CPU on a core of its own\<close>

definition LONG_MIN :: int where "LONG_MIN = - (2 ^ 63)"
definition LONG_MAX :: int where "LONG_MAX = 2 ^ 63 - 1"

definition core_cpus_list_path :: "nat \<Rightarrow> string" where
  "core_cpus_list_path cpu =
     snprintf PATH_MAX (''/sys/devices/system/cpu/cpu'' @ print_nat 10 cpu @ ''/topology/core_cpus_list'')"

text \<open>A token without its last character, unless that is the only one.\<close>

definition token_string :: "string \<Rightarrow> string" where
  "token_string token = cstr (if length token > 1 then butlast token else token)"

fun set_core_tokens :: "nat \<Rightarrow> string list \<Rightarrow> nat set \<Rightarrow> int \<times> nat set" where
  "set_core_tokens setsize [] S = (0, S)"
| "set_core_tokens setsize (token # ts) S =
     (let core_cpu = strtol0 (token_string token)
      in if core_cpu = LONG_MIN \<or> core_cpu = LONG_MAX then (-1, S)
         else set_core_tokens setsize ts (CPU_SET_S (sint (word_of_int core_cpu :: u32)) setsize S))"

definition set_core_cpus :: "env \<Rightarrow> nat \<Rightarrow> nat set \<Rightarrow> nat \<Rightarrow> 'z world_scheme \<Rightarrow> ((int \<times> nat set) \<times> 'z world_scheme) option" where
  "set_core_cpus E cpu S setsize s =
     (if setsize = 0 then Some ((-1, S), s)
      else do {
        (fp, s) \<leftarrow> os_int E (Fopen (core_cpus_list_path cpu) ''r'') s;
        if fp = 0 then Some ((-1, S), s)
        else do {
          (text, s) \<leftarrow> ask (a_text E) (OS (Read_text (core_cpus_list_path cpu))) s;
          let ret = set_core_tokens setsize (getdelims (CHR '','') (stream_text text)) S;
          (_, s) \<leftarrow> os_int E (Fclose fp) s;
          Some (ret, s)
        }
      })"

fun collect_siblings ::
  "env \<Rightarrow> nat list \<Rightarrow> nat \<Rightarrow> nat set \<Rightarrow> nat \<Rightarrow> nat set \<Rightarrow> 'z world_scheme \<Rightarrow> ((bool \<times> nat set) \<times> 'z world_scheme) option" where
  "collect_siblings E [] setsize cpu_set core_setsize core_cpu_set s = Some ((True, core_cpu_set), s)"
| "collect_siblings E (i # is) setsize cpu_set core_setsize core_cpu_set s =
     (if CPU_ISSET_S i setsize cpu_set then do {
        ((r, core_cpu_set), s) \<leftarrow> set_core_cpus E i core_cpu_set core_setsize s;
        if r < 0 then Some ((False, core_cpu_set), s)
        else collect_siblings E is setsize cpu_set core_setsize core_cpu_set s
      } else collect_siblings E is setsize cpu_set core_setsize core_cpu_set s)"

definition get_preferred_cpu :: "env \<Rightarrow> int \<Rightarrow> 'z world_scheme \<Rightarrow> (int \<times> 'z world_scheme) option" where
  "get_preferred_cpu E pid s = do {
     (setsize, s) \<leftarrow> alloc_cpu_set E s;
     case setsize of
       None \<Rightarrow> Some (-1, s)
     | Some setsize \<Rightarrow> do {
         (cpu_set, s) \<leftarrow> ask (a_cpus E) (OS (Sched_getaffinity pid)) s;
         case cpu_set of
           None \<Rightarrow> Some (-1, s)
         | Some cpu_set \<Rightarrow> do {
             (nprocs, s) \<leftarrow> os_int E Get_nprocs s;
             (core_setsize, s) \<leftarrow> alloc_cpu_set E s;
             case core_setsize of
               None \<Rightarrow> Some (-1, s)
             | Some core_setsize \<Rightarrow> do {
                 ((ok, core_cpu_set), s) \<leftarrow> collect_siblings E [0..<nat nprocs] setsize cpu_set core_setsize {} s;
                 if \<not> ok then Some (-1, s)
                 else Some (case find (\<lambda>i. \<not> CPU_ISSET_S i core_setsize core_cpu_set) [0..<nat nprocs] of
                      None \<Rightarrow> -1 | Some i \<Rightarrow> int i, s)
               }
           }
       }
   }"

section \<open>Searching for the first CPU\<close>

lemma find_upt_Some: "find P [0..<n] = Some i \<longleftrightarrow> i < n \<and> P i \<and> (\<forall>j < i. \<not> P j)"
  by (auto simp: find_Some_iff)

lemma find_upt_None: "find P [0..<n] = None \<longleftrightarrow> (\<forall>i < n. \<not> P i)"
  by (auto simp: find_None_iff)

lemma first_free_find:
  "\<forall>i \<in> set is. i < MAX_CPUS \<Longrightarrow>
   first_free U is = Some (case find (\<lambda>i. i \<notin> U) is of None \<Rightarrow> -1 | Some i \<Rightarrow> int i)"
  by (induction "is") auto

section \<open>The scan of /proc\<close>

lemma appends_scan_tasks: "appends s (scan_tasks E p ts U s)"
proof (induction ts arbitrary: U s)
  case Nil
  then show ?case by (simp add: appends_Some)
next
  case (Cons t ts)
  show ?case unfolding scan_tasks.simps by (intro appends_rules Cons)
qed

lemma appends_scan_procs: "appends s (scan_procs E ps U s)"
proof (induction ps arbitrary: U s)
  case Nil
  then show ?case by (simp add: appends_Some)
next
  case (Cons p ps)
  show ?case unfolding scan_procs.simps by (intro appends_rules appends_scan_tasks Cons)
qed

text \<open>Files and directories do not change while they are scanned.\<close>

definition stable_files :: "env \<Rightarrow> bool" where
  "stable_files E \<longleftrightarrow> (\<forall>h h' c p m. a_text E h c = a_text E h' c \<and> a_dir E h c = a_dir E h' c \<and>
     a_int E h (OS (Fopen p m)) = a_int E h' (OS (Fopen p m)))"

lemma stable_text: "stable_files E \<Longrightarrow> a_text E h c = a_text E [] c"
  by (simp add: stable_files_def)

lemma stable_dir: "stable_files E \<Longrightarrow> a_dir E h c = a_dir E [] c"
  by (simp add: stable_files_def)

lemma stable_open: "stable_files E \<Longrightarrow> a_int E h (OS (Fopen p m)) = a_int E [] (OS (Fopen p m))"
  by (simp add: stable_files_def)

text \<open>The contents of a file, \<open>None\<close> if it cannot be opened.\<close>

definition file_text :: "env \<Rightarrow> string \<Rightarrow> string option" where
  "file_text E p = (if a_int E [] (OS (Fopen p ''r'')) = 0 then None
     else Some (stream_text (a_text E [] (OS (Read_text p)))))"

definition task_cpus :: "env \<Rightarrow> string \<Rightarrow> string list \<Rightarrow> nat set" where
  "task_cpus E p ts = {c. \<exists>t st. t \<in> set ts \<and> numeric_name t \<and>
     file_text E (status_path p t) = Some st \<and> status_cpu st = Some c}"

definition proc_cpus :: "env \<Rightarrow> string list \<Rightarrow> nat set" where
  "proc_cpus E ps = {c. \<exists>p ts. p \<in> set ps \<and> numeric_name p \<and>
     a_dir E [] (OS (Opendir (task_path p))) = Some ts \<and> c \<in> task_cpus E p ts}"

text \<open>The CPUs to which some thread with an address space is bound alone.\<close>

definition pinned_cpus :: "env \<Rightarrow> nat set" where
  "pinned_cpus E = (case a_dir E [] (OS (Opendir ''/proc'')) of None \<Rightarrow> {} | Some ps \<Rightarrow> proc_cpus E ps)"

lemma task_cpus_simps [simp]:
  "task_cpus E p [] = {}"
  "task_cpus E p (t # ts) = (if \<not> numeric_name t then {} else
     case file_text E (status_path p t) of None \<Rightarrow> {} | Some st \<Rightarrow> set_option (status_cpu st)) \<union>
     task_cpus E p ts"
  by (auto simp: task_cpus_def split: option.splits)

lemma proc_cpus_simps [simp]:
  "proc_cpus E [] = {}"
  "proc_cpus E (p # ps) = (if \<not> numeric_name p then {} else
     case a_dir E [] (OS (Opendir (task_path p))) of None \<Rightarrow> {} | Some ts \<Rightarrow> task_cpus E p ts) \<union> proc_cpus E ps"
  by (auto simp: proc_cpus_def split: option.splits)

lemma scan_tasks_stable:
  assumes "stable_files E"
  shows "\<exists>h. scan_tasks E p ts U s = Some (U \<union> task_cpus E p ts, s\<lparr>hist := h\<rparr>)"
proof (induction ts arbitrary: U s)
  case Nil
  then show ?case by (auto intro: exI [of _ "hist s"])
next
  case (Cons t ts)
  let ?f = "status_path p t"
  have IH: "\<exists>h'. scan_tasks E p ts V (s\<lparr>hist := h\<rparr>) = Some (V \<union> task_cpus E p ts, s\<lparr>hist := h'\<rparr>)" for V h
    using Cons [of V "s\<lparr>hist := h\<rparr>"] by simp
  note st = stable_text [OF assms, of "hist s @ [OS (Fopen ?f ''r'')]"] stable_open [OF assms, of "hist s"]
  show ?case
  proof (cases "numeric_name t")
    case True
    then show ?thesis
      using IH [of U "hist s @ [OS (Fopen ?f ''r'')]"]
        IH [of "U \<union> set_option (status_cpu (stream_text (a_text E [] (OS (Read_text ?f)))))"
          "hist s @ [OS (Fopen ?f ''r''), OS (Read_text ?f), OS (Fclose (a_int E [] (OS (Fopen ?f ''r''))))]"]
      by (auto simp: ask_defs st file_text_def Un_assoc)
  qed (use IH [of U "hist s"] in auto)
qed

lemma scan_procs_stable:
  assumes "stable_files E"
  shows "\<exists>h. scan_procs E ps U s = Some (U \<union> proc_cpus E ps, s\<lparr>hist := h\<rparr>)"
proof (induction ps arbitrary: U s)
  case Nil
  then show ?case by (auto intro: exI [of _ "hist s"])
next
  case (Cons p ps)
  let ?c = "OS (Opendir (task_path p))"
  let ?s = "s\<lparr>hist := hist s @ [?c]\<rparr>"
  have IH: "\<exists>h'. scan_procs E ps V (s\<lparr>hist := h\<rparr>) = Some (V \<union> proc_cpus E ps, s\<lparr>hist := h'\<rparr>)" for V h
    using Cons [of V "s\<lparr>hist := h\<rparr>"] by simp
  show ?case
  proof (cases "numeric_name p")
    case False
    then show ?thesis using Cons by auto
  next
    case num: True
    show ?thesis
    proof (cases "a_dir E [] ?c")
      case None
      then show ?thesis using num IH [of U "hist s @ [?c]"] by (simp add: ask_def stable_dir [OF assms, of "hist s"])
    next
      case (Some ts)
      obtain h where "scan_tasks E p ts U ?s = Some (U \<union> task_cpus E p ts, s\<lparr>hist := h\<rparr>)"
        using scan_tasks_stable [OF assms, of p ts U ?s] by auto
      then show ?thesis
        using num Some IH [of "U \<union> task_cpus E p ts" "h @ [OS (Closedir (task_path p))]"]
        by (simp add: ask_defs stable_dir [OF assms, of "hist s"] Un_assoc)
    qed
  qed
qed

section \<open>The sibling lists\<close>

lemma hd_print_nat: "0 < n \<Longrightarrow> hd (print_nat 10 n) \<noteq> CHR ''0''"
proof (induction n rule: less_induct)
  case (less n)
  have ne: "print_nat 10 m \<noteq> []" for m by (subst print_nat.simps) simp
  show ?case
  proof (cases "n < 10")
    case True
    then have "digit_value (digit_char n) = n" by simp
    moreover have "digit_value (CHR ''0'') = 0" by (simp add: digit_value_def)
    ultimately have "digit_char n \<noteq> CHR ''0''" using less.prems by auto
    with True show ?thesis by (subst print_nat.simps) simp
  next
    case False
    then show ?thesis using less.IH [of "n div 10"] ne by (subst print_nat.simps) simp
  qed
qed

lemma stops_mono: "stops 16 r \<Longrightarrow> b \<le> 16 \<Longrightarrow> stops b r"
  by (auto simp: stops_def in_base_def split: list.splits)

lemma strtol0_print:
  assumes "int n < 2 ^ 63" and "stops 16 r"
  shows "strtol0 (print_nat 10 n @ r) = int n"
proof -
  obtain ds where ds: "ds \<noteq> []" "print_nat 10 n = map digit_char ds" "\<forall>d \<in> set ds. d < 10"
    using print_nat_digits [of 10 n] by auto
  then have ds16: "\<forall>d \<in> set ds. d < 16" by auto
  obtain d es where c: "ds = d # es" "d < 16" using ds by (cases ds) auto
  have sgn: "scan_sign (skip_space (print_nat 10 n @ r)) = (False, print_nat 10 n @ r)"
    using c ds(2) by (simp add: skip_space_def scan_sign_def)
  have x: "skip_0x (print_nat 10 n @ r) = print_nat 10 n @ r"
    using skip_0x_digits [OF ds(1) ds16 assms(2)] ds(2) by simp
  have v: "to_long (int n) = int n" using assms(1) by (simp add: to_long_def)
  show ?thesis
  proof (cases "n = 0")
    case True
    have z: "digit_char 0 = CHR ''0''" by (simp add: digit_char_def)
    then have p: "print_nat 10 0 = ''0''" by (simp add: print_nat.simps)
    have "scan_number 8 (map digit_char [0] @ r) = Some (0, r)"
      using scan_number_digits [of "[0]" 8 r] stops_mono [OF assms(2)] by (simp add: digits_value_def)
    then have "scan_number 8 (CHR ''0'' # r) = Some (0, r)" by (simp add: z)
    then show ?thesis using sgn x by (simp add: strtol0_def True p to_long_def)
  next
    case False
    then have "digit_char d \<noteq> CHR ''0''" using hd_print_nat [of n] ds(2) c by simp
    moreover have "scan_number 10 (print_nat 10 n @ r) = Some (int n, r)"
      using scan_number_print_nat [of 10 r n] stops_mono [OF assms(2)] by simp
    ultimately show ?thesis using sgn x v ds(2) c by (simp add: strtol0_def)
  qed
qed

text \<open>The comma-separated form of the file.\<close>

fun print_cpu_list :: "nat list \<Rightarrow> string" where
  "print_cpu_list [] = [CHR 0x0A]"
| "print_cpu_list [c] = print_nat 10 c @ [CHR 0x0A]"
| "print_cpu_list (c # cs) = print_nat 10 c @ CHR '','' # print_cpu_list cs"

lemma print_nat_10_plain: "ch \<in> set (print_nat 10 n) \<Longrightarrow> ch \<noteq> CHR '','' \<and> ch \<noteq> CHR 0x00"
proof -
  assume "ch \<in> set (print_nat 10 n)"
  then obtain d where "d < 10" "ch = digit_char d"
    using print_nat_digits [of 10 n] by (metis imageE list.set_map numeral_le_iff rel_simps)
  then show ?thesis by simp
qed

lemma print_nat_ne [simp]: "print_nat b n \<noteq> []"
  by (subst print_nat.simps) simp

lemma getdelims_token: "CHR '','' \<notin> set p \<Longrightarrow> getdelims (CHR '','') (p @ CHR '','' # s) = (p @ '','') # getdelims (CHR '','') s"
  by (induction p) auto

lemma getdelims_last: "d \<notin> set p \<Longrightarrow> p \<noteq> [] \<Longrightarrow> getdelims d p = [p]"
proof (induction p)
  case (Cons c s)
  then show ?case by (cases s) auto
qed simp

lemma token_string_print: "token_string (print_nat 10 n @ [ch]) = print_nat 10 n"
proof -
  have "cstr (print_nat 10 n) = print_nat 10 n"
    unfolding cstr_def using print_nat_10_plain by (intro takeWhile_eq_all_conv [THEN iffD2]) blast
  then show ?thesis by (simp add: token_string_def)
qed

lemma set_core_token:
  assumes "c < 8 * setsize" and "c < 2 ^ 31"
  shows "set_core_tokens setsize ((print_nat 10 c @ [ch]) # ts) S = set_core_tokens setsize ts (insert c S)"
proof -
  have "strtol0 (print_nat 10 c) = int c" using strtol0_print [of c "[]"] assms(2) by (simp add: stops_def)
  moreover have "sint (word_of_int (int c) :: u32) = int c"
    using assms(2) by (simp only: signed_of_int) (simp add: signed_take_bit_int_eq_self)
  moreover have "unat (size_t_of_int (int c)) = c" using assms(2) unat_size_t_of_int [of "int c"] by simp
  ultimately show ?thesis
    using assms by (simp add: token_string_print LONG_MIN_def LONG_MAX_def CPU_SET_S_def Let_def)
qed

lemma set_core_list:
  assumes "cs \<noteq> []" and "\<forall>c \<in> set cs. c < 8 * setsize \<and> c < 2 ^ 31"
  shows "set_core_tokens setsize (getdelims (CHR '','') (print_cpu_list cs)) S = (0, S \<union> set cs)"
  using assms
proof (induction cs arbitrary: S rule: print_cpu_list.induct)
  case (2 c)
  have "getdelims (CHR '','') (print_nat 10 c @ [CHR 0x0A]) = [print_nat 10 c @ [CHR 0x0A]]"
    using print_nat_10_plain by (intro getdelims_last) auto
  with 2 show ?case by (simp add: set_core_token del: set_core_tokens.simps(2))
next
  case (3 c d cs)
  have "getdelims (CHR '','') (print_nat 10 c @ CHR '','' # print_cpu_list (d # cs)) =
      (print_nat 10 c @ '','') # getdelims (CHR '','') (print_cpu_list (d # cs))"
    using print_nat_10_plain by (intro getdelims_token) auto
  with 3 show ?case by (simp add: set_core_token insert_commute del: set_core_tokens.simps(2))
qed simp

lemma CPU_ALLOC_SIZE_covers: "i < nat n \<Longrightarrow> i < 8 * CPU_ALLOC_SIZE n"
proof -
  have "m \<le> 8 * ((m + 63) div 64 * 8)" for m :: nat by presburger
  from this [of "nat n"] show "i < nat n \<Longrightarrow> i < 8 * CPU_ALLOC_SIZE n" unfolding CPU_ALLOC_SIZE_def by linarith
qed

lemma collect_siblings_lists:
  assumes "stable_files E" and "0 < core_setsize"
    and "\<And>i. i \<in> set is \<Longrightarrow> CPU_ISSET_S i setsize S \<Longrightarrow> sib i \<noteq> [] \<and>
       (\<forall>c \<in> set (sib i). c < 8 * core_setsize \<and> c < 2 ^ 31) \<and>
       file_text E (core_cpus_list_path i) = Some (print_cpu_list (sib i))"
  shows "\<exists>h. collect_siblings E is setsize S core_setsize C s =
    Some ((True, C \<union> (\<Union>i \<in> {i \<in> set is. CPU_ISSET_S i setsize S}. set (sib i))), s\<lparr>hist := h\<rparr>)"
  using assms(3)
proof (induction "is" arbitrary: C s)
  case Nil
  then show ?case by (auto intro: exI [of _ "hist s"])
next
  case (Cons i ids)
  let ?R = "\<Union>i \<in> {i \<in> set ids. CPU_ISSET_S i setsize S}. set (sib i)"
  have IH: "\<exists>h'. collect_siblings E ids setsize S core_setsize D (s\<lparr>hist := h\<rparr>) =
      Some ((True, D \<union> ?R), s\<lparr>hist := h'\<rparr>)" for D h
    using Cons.IH [of D "s\<lparr>hist := h\<rparr>", OF Cons.prems] by simp
  show ?case
  proof (cases "CPU_ISSET_S i setsize S")
    case False
    then have "{j. (j = i \<or> j \<in> set ids) \<and> CPU_ISSET_S j setsize S} = {j \<in> set ids. CPU_ISSET_S j setsize S}" by auto
    with False show ?thesis using IH [of C "hist s"] by simp
  next
    case True
    let ?f = "core_cpus_list_path i"
    from True have u: "{j. (j = i \<or> j \<in> set ids) \<and> CPU_ISSET_S j setsize S} =
        insert i {j \<in> set ids. CPU_ISSET_S j setsize S}" by auto
    have "set_core_tokens core_setsize (getdelims (CHR '','') (print_cpu_list (sib i))) C = (0, C \<union> set (sib i))"
      using Cons.prems [of i] True by (intro set_core_list) auto
    then show ?thesis
      using True Cons.prems [of i] assms(2) IH [of "C \<union> set (sib i)" "hist s @ [OS (Fopen ?f ''r''), OS (Read_text ?f),
          OS (Fclose (a_int E [] (OS (Fopen ?f ''r''))))]"]
      by (simp add: set_core_cpus_def ask_defs stable_text [OF assms(1), of "hist s @ [OS (Fopen ?f ''r'')]"]
          stable_open [OF assms(1), of "hist s"] u Un_assoc file_text_def split: if_splits) blast
  qed
qed

section \<open>The search for a free CPU\<close>

lemma find_free_cpu_result:
  assumes "stable_files E" and "a_int E (hist s) (OS Sysconf_nprocs) = int n" and "2 \<le> n" and "n \<le> MAX_CPUS"
    and "a_dir E [] (OS (Opendir ''/proc'')) = Some ps"
  shows "\<exists>r h. find_free_cpu E s = Some (r, s\<lparr>hist := h\<rparr>) \<and>
    (if \<forall>i < n. i \<in> pinned_cpus E then r = -1
     else \<exists>i. r = int i \<and> i < n \<and> i \<notin> pinned_cpus E \<and> (\<forall>j < i. j \<in> pinned_cpus E))"
proof -
  let ?s = "s\<lparr>hist := hist s @ [OS Sysconf_nprocs, OS (Opendir ''/proc'')]\<rparr>"
  have U: "pinned_cpus E = proc_cpus E ps" using assms(5) by (simp add: pinned_cpus_def)
  obtain h where "scan_procs E ps {} ?s = Some (pinned_cpus E, s\<lparr>hist := h\<rparr>)"
    using scan_procs_stable [OF assms(1), of ps "{}" ?s] U by auto
  moreover have "first_free (pinned_cpus E) [0..<n] =
      Some (case find (\<lambda>i. i \<notin> pinned_cpus E) [0..<n] of None \<Rightarrow> -1 | Some i \<Rightarrow> int i)"
    using assms(4) by (intro first_free_find) auto
  ultimately have run: "find_free_cpu E s =
      Some (case find (\<lambda>i. i \<notin> pinned_cpus E) [0..<n] of None \<Rightarrow> -1 | Some i \<Rightarrow> int i, s\<lparr>hist := h @ [OS (Closedir ''/proc'')]\<rparr>)"
    using assms(2,3,5) by (simp add: find_free_cpu_def ask_defs stable_dir [OF assms(1), of "hist s @ [OS Sysconf_nprocs]"])
  show ?thesis
  proof (cases "find (\<lambda>i. i \<notin> pinned_cpus E) [0..<n]")
    case None
    then show ?thesis using run find_upt_None [of "\<lambda>i. i \<notin> pinned_cpus E" n] by auto
  next
    case (Some i)
    then show ?thesis using run find_upt_Some [of "\<lambda>i. i \<notin> pinned_cpus E" n i] by auto
  qed
qed

section \<open>The status files as the kernel prints them\<close>

text \<open>A thread, as \<open>/proc/<pid>/task/<tid>/status\<close> describes it: the line \<open>VmSize\<close>, which kernel threads lack as they have
  no address space, later the line \<open>Cpus_allowed_list\<close> with the ranges of CPUs the thread may run on, and other
  lines around them.\<close>

record thread =
  th_head :: "string list"
  th_vmsize :: "string option"
  th_mid :: "string list"
  th_allowed :: "(nat \<times> nat) list"
  th_tail :: "string list"

fun print_range :: "nat \<times> nat \<Rightarrow> string" where
  "print_range (a, b) = (if a = b then print_nat 10 a else print_nat 10 a @ ''-'' @ print_nat 10 b)"

fun print_ranges :: "(nat \<times> nat) list \<Rightarrow> string" where
  "print_ranges [] = []"
| "print_ranges [r] = print_range r"
| "print_ranges (r # rs) = print_range r @ '','' @ print_ranges rs"

definition vmsize_key :: string where "vmsize_key = ''VmSize:'' @ [CHR 0x09]"
definition allowed_key :: string where "allowed_key = ''Cpus_allowed_list:'' @ [CHR 0x09]"

definition thread_lines :: "thread \<Rightarrow> string list" where
  "thread_lines th = th_head th @ (case th_vmsize th of None \<Rightarrow> [] | Some v \<Rightarrow> [vmsize_key @ v]) @ th_mid th @
     [allowed_key @ print_ranges (th_allowed th)] @ th_tail th"

definition print_thread :: "thread \<Rightarrow> string" where
  "print_thread th = concat (map (\<lambda>l. l @ [CHR 0x0A]) (thread_lines th))"

text \<open>Lines fit into the array that \<open>fgets\<close> reads them into, and each of the two keys occurs once.\<close>

definition plain_line :: "string \<Rightarrow> bool" where
  "plain_line l \<longleftrightarrow> CHR 0x0A \<notin> set l \<and> CHR 0x00 \<notin> set l \<and> length l < 8191"

definition thread_ok :: "thread \<Rightarrow> bool" where
  "thread_ok th \<longleftrightarrow> (\<forall>l \<in> set (thread_lines th). plain_line l) \<and>
     (\<forall>l \<in> set (th_head th @ th_mid th @ th_tail th). \<not> prefix vmsize_key l \<and> \<not> prefix allowed_key l) \<and>
     (\<forall>(a, b) \<in> set (th_allowed th). a \<le> b \<and> b < 2 ^ 32)"

text \<open>The threads that count: those with an address space that may run on one CPU only.\<close>

definition bound_to :: "thread \<Rightarrow> nat \<Rightarrow> bool" where
  "bound_to th c \<longleftrightarrow> th_vmsize th \<noteq> None \<and> th_allowed th = [(c, c)]"

text \<open>A directory with an entry for each of some numbers, and other entries that do not start with a digit.\<close>

definition dir_lists :: "nat set \<Rightarrow> string list \<Rightarrow> bool" where
  "dir_lists ids names \<longleftrightarrow> (\<forall>i \<in> ids. i < 2 ^ 31 \<and> print_nat 10 i \<in> set names) \<and>
     (\<forall>n \<in> set names. n \<in> print_nat 10 ` ids \<or> n = [] \<or> hd n \<notin> set ''0123456789'')"

text \<open>\<open>/proc\<close> with the processes \<open>pids\<close>, their threads, and the state of each thread; \<open>None\<close> for what has gone.\<close>

definition proc_fs :: "env \<Rightarrow> nat set \<Rightarrow> (nat \<Rightarrow> nat set option) \<Rightarrow> (nat \<Rightarrow> nat \<Rightarrow> thread option) \<Rightarrow> bool" where
  "proc_fs E pids tids thr \<longleftrightarrow>
     (\<exists>names. a_dir E [] (OS (Opendir ''/proc'')) = Some names \<and> dir_lists pids names) \<and>
     (\<forall>p \<in> pids. case tids p of
        None \<Rightarrow> a_dir E [] (OS (Opendir (''/proc/'' @ print_nat 10 p @ ''/task''))) = None
      | Some ts \<Rightarrow> (\<exists>names. a_dir E [] (OS (Opendir (''/proc/'' @ print_nat 10 p @ ''/task''))) = Some names \<and>
          dir_lists ts names) \<and>
          (\<forall>t \<in> ts. file_text E (''/proc/'' @ print_nat 10 p @ ''/task/'' @ print_nat 10 t @ ''/status'') =
             map_option print_thread (thr p t) \<and> (\<forall>th. thr p t = Some th \<longrightarrow> thread_ok th)))"

definition bound_cpus :: "nat set \<Rightarrow> (nat \<Rightarrow> nat set option) \<Rightarrow> (nat \<Rightarrow> nat \<Rightarrow> thread option) \<Rightarrow> nat set" where
  "bound_cpus pids tids thr =
     {c. \<exists>p \<in> pids. \<exists>ts. tids p = Some ts \<and> (\<exists>t \<in> ts. \<exists>th. thr p t = Some th \<and> bound_to th c)}"

lemma chunks_short: "l \<noteq> [] \<Longrightarrow> length l \<le> Suc n \<Longrightarrow> chunks n l = [l]"
  by (cases l) auto

lemma getdelims_line: "d \<notin> set l \<Longrightarrow> getdelims d (l @ d # s) = (l @ [d]) # getdelims d s"
  by (induction l) auto

lemma fgets_lines:
  assumes "\<forall>l \<in> set ls. plain_line l"
  shows "fgets_all (MAX_LINE - 2) (concat (map (\<lambda>l. l @ [CHR 0x0A]) ls)) = map (\<lambda>l. l @ [CHR 0x0A]) ls"
proof -
  have "getdelims (CHR 0x0A) (concat (map (\<lambda>l. l @ [CHR 0x0A]) ls)) = map (\<lambda>l. l @ [CHR 0x0A]) ls"
    using assms by (induction ls) (simp_all add: plain_line_def getdelims_line)
  moreover have "concat (map (chunks (MAX_LINE - 2)) (map (\<lambda>l. l @ [CHR 0x0A]) ls)) = map (\<lambda>l. l @ [CHR 0x0A]) ls"
    using assms by (induction ls) (simp_all add: plain_line_def chunks_short MAX_LINE_def)
  ultimately show ?thesis by (simp add: fgets_all_def)
qed

lemma take_key: "CHR 0x0A \<notin> set k \<Longrightarrow> take (length k) (l @ [CHR 0x0A]) = k \<longleftrightarrow> prefix k l"
proof -
  assume k: "CHR 0x0A \<notin> set k"
  have "take (length k) (l @ [CHR 0x0A]) = k \<longleftrightarrow> prefix k (l @ [CHR 0x0A])"
    by (metis append_eq_conv_conj append_take_drop_id prefix_def)
  then show ?thesis using k by (auto simp: prefix_snoc)
qed

lemma strchr_None: "strchr t c = None \<longleftrightarrow> c \<notin> set t"
  by (auto simp: strchr_def Let_def dropWhile_eq_Nil_conv)

lemma key_facts: "length vmsize_key = 8" "length allowed_key = 19" "CHR 0x0A \<notin> set vmsize_key" "CHR 0x0A \<notin> set allowed_key"
  by (simp_all add: vmsize_key_def allowed_key_def)

lemma scan_status_plain:
  assumes "plain_line l"
  shows "scan_status ((l @ [CHR 0x0A]) # ls) vm =
     (if prefix allowed_key l \<and> CHR ''-'' \<notin> set l \<and> CHR '','' \<notin> set l
      then case scan_u (drop 19 (l @ [CHR 0x0A])) of
             Some (hval, _) \<Rightarrow> if unat hval < MAX_CPUS \<and> (vm \<or> prefix vmsize_key l) then Some (unat hval)
                              else scan_status ls (vm \<or> prefix vmsize_key l)
           | None \<Rightarrow> scan_status ls (vm \<or> prefix vmsize_key l)
      else scan_status ls (vm \<or> prefix vmsize_key l))"
proof -
  have "cstr (l @ [CHR 0x0A]) = l @ [CHR 0x0A]"
    using assms unfolding cstr_def plain_line_def by (intro takeWhile_eq_all_conv [THEN iffD2]) auto
  moreover have "take 8 (l @ [CHR 0x0A]) = ''VmSize:'' @ [CHR 0x09] \<longleftrightarrow> prefix vmsize_key l"
    using take_key [of vmsize_key l] key_facts(1,3) by (simp only: vmsize_key_def [symmetric] simp_thms)
  moreover have "take 19 (l @ [CHR 0x0A]) = ''Cpus_allowed_list:'' @ [CHR 0x09] \<longleftrightarrow> prefix allowed_key l"
    using take_key [of allowed_key l] key_facts(2,4) by (simp only: allowed_key_def [symmetric] simp_thms)
  moreover have "CHR ''-'' \<notin> set (l @ [CHR 0x0A]) \<longleftrightarrow> CHR ''-'' \<notin> set l" "CHR '','' \<notin> set (l @ [CHR 0x0A]) \<longleftrightarrow> CHR '','' \<notin> set l"
    by simp_all
  ultimately show ?thesis by (simp only: scan_status.simps Let_def strchr_None)
qed

lemma scan_status_others:
  assumes "\<forall>l \<in> set os. plain_line l \<and> \<not> prefix vmsize_key l \<and> \<not> prefix allowed_key l"
  shows "scan_status (map (\<lambda>l. l @ [CHR 0x0A]) os @ ls) vm = scan_status ls vm"
  using assms by (induction os) (simp_all add: scan_status_plain del: scan_status.simps(2))

lemma keys_differ: "\<not> prefix allowed_key (vmsize_key @ v)" "\<not> prefix vmsize_key (allowed_key @ v)"
  by (simp_all add: vmsize_key_def allowed_key_def)

lemma print_nat_no_dash: "CHR ''-'' \<notin> set (print_nat 10 n)"
proof -
  obtain ds where "print_nat 10 n = map digit_char ds" "\<forall>d \<in> set ds. d < 10" using print_nat_digits [of 10 n] by auto
  then have "\<forall>c \<in> set (print_nat 10 n). c \<noteq> CHR ''-''" by auto
  then show ?thesis by blast
qed

lemma scan_u_newline: "scan_u [CHR 0x0A] = None"
  by (simp add: scan_u_def scan_number_def skip_space_def isspace_def scan_sign_def)

lemma print_ranges_single:
  assumes "\<forall>(a, b) \<in> set rs. a \<le> b \<and> b < 2 ^ 32" and "CHR ''-'' \<notin> set (print_ranges rs)" and "CHR '','' \<notin> set (print_ranges rs)"
  shows "rs = [] \<or> (\<exists>c. rs = [(c, c)] \<and> c < 2 ^ 32)"
  using assms by (cases rs rule: print_ranges.cases) (auto split: if_splits)

lemma scan_status_allowed:
  assumes "plain_line (allowed_key @ print_ranges rs)" and "\<forall>(a, b) \<in> set rs. a \<le> b \<and> b < 2 ^ 32"
  shows "scan_status ((allowed_key @ print_ranges rs @ [CHR 0x0A]) # ls) vm =
    (if \<exists>c. rs = [(c, c)] \<and> c < MAX_CPUS \<and> vm then Some (fst (hd rs)) else scan_status ls vm)"
proof (cases "CHR ''-'' \<in> set (print_ranges rs) \<or> CHR '','' \<in> set (print_ranges rs)")
  case True
  then have "\<nexists>c. rs = [(c, c)]" using print_nat_no_dash print_nat_10_plain by fastforce
  moreover have n: "\<not> (prefix allowed_key (allowed_key @ print_ranges rs) \<and> CHR ''-'' \<notin> set (allowed_key @ print_ranges rs) \<and>
      CHR '','' \<notin> set (allowed_key @ print_ranges rs))" using True by auto
  ultimately show ?thesis using scan_status_plain [OF assms(1), of ls vm, unfolded if_not_P [OF n]] keys_differ(2) [of "print_ranges rs"]
    by (simp del: scan_status.simps(2))
next
  case False
  have k: "length allowed_key = 19" "CHR ''-'' \<notin> set allowed_key" "CHR '','' \<notin> set allowed_key"
    by (simp_all add: allowed_key_def)
  have d: "drop 19 (allowed_key @ t) = t" for t using k(1) by (metis append_eq_conv_conj)
  consider "rs = []" | c where "rs = [(c, c)]" "c < 2 ^ 32" using print_ranges_single [OF assms(2)] False by blast
  then show ?thesis
  proof cases
    case 1
    then show ?thesis using scan_status_plain [OF assms(1), of ls vm] keys_differ(2) [of "[]"] k d [of "[CHR 0x0A]"]
      by (simp add: scan_u_newline del: scan_status.simps(2))
  next
    case 2
    have "stops 10 [CHR 0x0A]" by (simp add: stops_def in_base_def digit_value_def)
    with 2 have "scan_u (print_nat 10 c @ [CHR 0x0A]) = Some (of_nat c, [CHR 0x0A])" by (intro scan_u_print)
    moreover have "unat (of_nat c :: u32) = c" using 2(2) by (simp add: unat_of_nat)
    ultimately show ?thesis
      using 2 False scan_status_plain [OF assms(1), of ls vm] keys_differ(2) [of "print_nat 10 c"] k d [of "print_nat 10 c @ [CHR 0x0A]"]
      by (simp del: scan_status.simps(2))
  qed
qed

lemma status_cpu_thread:
  assumes "thread_ok th"
  shows "status_cpu (print_thread th) = Some c \<longleftrightarrow> bound_to th c \<and> c < MAX_CPUS"
proof -
  let ?n = "map (\<lambda>l. l @ [CHR 0x0A])"
  let ?v = "case th_vmsize th of None \<Rightarrow> [] | Some v \<Rightarrow> [vmsize_key @ v]"
  have ok: "\<forall>l \<in> set (thread_lines th). plain_line l"
    and a: "\<forall>(a, b) \<in> set (th_allowed th). a \<le> b \<and> b < 2 ^ 32"
    using assms by (simp_all add: thread_ok_def)
  have oth: "\<forall>l \<in> set os. plain_line l \<and> \<not> prefix vmsize_key l \<and> \<not> prefix allowed_key l"
    if "os \<in> {th_head th, th_mid th, th_tail th}" for os
    using that assms by (auto simp: thread_ok_def thread_lines_def)
  have vm: "scan_status (?n ?v @ ls) False = scan_status ls (th_vmsize th \<noteq> None)" for ls
  proof (cases "th_vmsize th")
    case (Some v)
    with ok have "plain_line (vmsize_key @ v)" by (simp add: thread_lines_def)
    from scan_status_plain [OF this, of ls False] Some show ?thesis by (simp add: keys_differ del: scan_status.simps(2))
  qed simp
  have tail: "scan_status (?n (th_tail th)) vm = None" for vm
    using scan_status_others [OF oth, of "th_tail th" "[]" vm] by simp
  have "status_cpu (print_thread th) = scan_status (?n (thread_lines th)) False"
    by (simp add: status_cpu_def print_thread_def fgets_lines [OF ok])
  also have "\<dots> = scan_status ((allowed_key @ print_ranges (th_allowed th) @ [CHR 0x0A]) # ?n (th_tail th)) (th_vmsize th \<noteq> None)"
    using scan_status_others [OF oth] vm by (simp add: thread_lines_def del: scan_status.simps(2))
  also have "\<dots> = Some c \<longleftrightarrow> bound_to th c \<and> c < MAX_CPUS"
    using ok a by (subst scan_status_allowed) (auto simp: thread_lines_def tail bound_to_def)
  finally show ?thesis .
qed

lemma proc_paths:
  assumes "p < 2 ^ 31" and "t < 2 ^ 31"
  shows "task_path (print_nat 10 p) = ''/proc/'' @ print_nat 10 p @ ''/task''"
    and "status_path (print_nat 10 p) (print_nat 10 t) = ''/proc/'' @ print_nat 10 p @ ''/task/'' @ print_nat 10 t @ ''/status''"
proof -
  have "length (print_nat 10 p) \<le> 10" "length (print_nat 10 t) \<le> 10" using assms by (simp_all add: length_print_nat)
  then show "task_path (print_nat 10 p) = ''/proc/'' @ print_nat 10 p @ ''/task''"
    "status_path (print_nat 10 p) (print_nat 10 t) = ''/proc/'' @ print_nat 10 p @ ''/task/'' @ print_nat 10 t @ ''/status''"
    by (simp_all add: task_path_def status_path_def snprintf_def PATH_MAX_def)
qed

lemma numeric_print_nat: "numeric_name (print_nat 10 n)"
proof -
  obtain ds where ds: "ds \<noteq> []" "print_nat 10 n = map digit_char ds" "\<forall>d \<in> set ds. d < 10" using print_nat_digits [of 10 n] by auto
  then show ?thesis by (cases ds) (auto simp: numeric_name_def isdigit_digit_char)
qed

lemma dir_lists_numeric: "dir_lists ids names \<Longrightarrow> n \<in> set names \<and> numeric_name n \<longleftrightarrow> n \<in> print_nat 10 ` ids"
  using numeric_print_nat by (auto simp: dir_lists_def numeric_name_def isdigit_def)

lemma pinned_bound_cpus:
  assumes "proc_fs E pids tids thr"
  shows "c \<in> pinned_cpus E \<longleftrightarrow> c \<in> bound_cpus pids tids thr \<and> c < MAX_CPUS"
proof -
  obtain names where names: "a_dir E [] (OS (Opendir ''/proc'')) = Some names" "dir_lists pids names"
    using assms by (auto simp: proc_fs_def)
  have task: "c \<in> task_cpus E (print_nat 10 p) ns \<longleftrightarrow> (\<exists>t \<in> ts. \<exists>th. thr p t = Some th \<and> bound_to th c) \<and> c < MAX_CPUS"
    if p: "p \<in> pids" "tids p = Some ts" "dir_lists ts ns" for p ts ns
  proof -
    have "p < 2 ^ 31" "\<forall>t \<in> ts. t < 2 ^ 31" using names(2) p by (auto simp: dir_lists_def)
    then have f: "file_text E (status_path (print_nat 10 p) (print_nat 10 t)) = map_option print_thread (thr p t)"
      "\<And>th. thr p t = Some th \<Longrightarrow> thread_ok th" if "t \<in> ts" for t
      using assms p that proc_paths(2) [of p t] by (auto simp: proc_fs_def)
    have "c \<in> task_cpus E (print_nat 10 p) ns \<longleftrightarrow> (\<exists>n \<in> print_nat 10 ` ts.
        \<exists>st. file_text E (status_path (print_nat 10 p) n) = Some st \<and> status_cpu st = Some c)"
      unfolding task_cpus_def using dir_lists_numeric [OF p(3)] by blast
    also have "\<dots> \<longleftrightarrow> (\<exists>t \<in> ts. \<exists>th. thr p t = Some th \<and> bound_to th c) \<and> c < MAX_CPUS"
    proof -
      have "(\<exists>st. file_text E (status_path (print_nat 10 p) (print_nat 10 t)) = Some st \<and> status_cpu st = Some c) \<longleftrightarrow>
          (\<exists>th. thr p t = Some th \<and> bound_to th c) \<and> c < MAX_CPUS" if "t \<in> ts" for t
        using f(1) [OF that] f(2) [OF that] status_cpu_thread by (cases "thr p t") auto
      then show ?thesis by (auto 0 3)
    qed
    finally show ?thesis .
  qed
  have dir: "a_dir E [] (OS (Opendir (task_path (print_nat 10 p)))) = None \<longleftrightarrow> tids p = None"
    "tids p = Some ts \<Longrightarrow> a_dir E [] (OS (Opendir (task_path (print_nat 10 p)))) = Some ns \<Longrightarrow> dir_lists ts ns"
    if "p \<in> pids" for p ts ns
  proof -
    have "p < 2 ^ 31" using names(2) that by (simp add: dir_lists_def)
    then show "a_dir E [] (OS (Opendir (task_path (print_nat 10 p)))) = None \<longleftrightarrow> tids p = None"
      "tids p = Some ts \<Longrightarrow> a_dir E [] (OS (Opendir (task_path (print_nat 10 p)))) = Some ns \<Longrightarrow> dir_lists ts ns"
      using assms that proc_paths(1) [of p 0] by (auto simp: proc_fs_def split: option.splits)
  qed
  have "c \<in> pinned_cpus E \<longleftrightarrow> (\<exists>n \<in> print_nat 10 ` pids.
      \<exists>ns. a_dir E [] (OS (Opendir (task_path n))) = Some ns \<and> c \<in> task_cpus E n ns)"
    using names(1) dir_lists_numeric [OF names(2)] unfolding pinned_cpus_def proc_cpus_def by (simp only: option.case mem_Collect_eq) blast
  also have "\<dots> \<longleftrightarrow> c \<in> bound_cpus pids tids thr \<and> c < MAX_CPUS"
  proof -
    have "(\<exists>ns. a_dir E [] (OS (Opendir (task_path (print_nat 10 p)))) = Some ns \<and> c \<in> task_cpus E (print_nat 10 p) ns) \<longleftrightarrow>
        (\<exists>ts. tids p = Some ts \<and> (\<exists>t \<in> ts. \<exists>th. thr p t = Some th \<and> bound_to th c)) \<and> c < MAX_CPUS" if p: "p \<in> pids" for p
    proof (cases "tids p")
      case None
      with dir(1) [OF p] show ?thesis by simp
    next
      case (Some ts)
      with dir(1) [OF p] obtain ns where "a_dir E [] (OS (Opendir (task_path (print_nat 10 p)))) = Some ns" by auto
      with Some task [OF p Some dir(2) [OF p Some]] show ?thesis by auto
    qed
    then show ?thesis by (auto 0 3 simp: bound_cpus_def)
  qed
  finally show ?thesis .
qed

section \<open>Properties\<close>

text \<open>C9. On a system with at most \<open>MAX_CPUS\<close> processors, and as long as \<open>/proc\<close> does not change meanwhile,
  \<open>find_free_cpu\<close> returns the smallest CPU that is not the only CPU of some thread with an address space,
  and -1 exactly if there is none. Kernel threads, and threads that may run on several CPUs, do not count.
  The processes and threads are described independently of the code, by the files the kernel prints for them.\<close>

theorem find_free_cpu_smallest:
  assumes "stable_files E" and "a_int E (hist s) (OS Sysconf_nprocs) = int n" and "2 \<le> n" and "n \<le> MAX_CPUS"
    and "proc_fs E pids tids thr" and "used = bound_cpus pids tids thr"
  shows "\<exists>r h. find_free_cpu E s = Some (r, s\<lparr>hist := h\<rparr>) \<and>
    (if \<forall>i < n. i \<in> used then r = -1 else \<exists>i. r = int i \<and> i < n \<and> i \<notin> used \<and> (\<forall>j < i. j \<in> used))"
proof -
  have eq: "i \<in> pinned_cpus E \<longleftrightarrow> i \<in> used" if "i < n" for i
    using pinned_bound_cpus [OF assms(5)] that assms(4,6) by simp
  obtain ps where "a_dir E [] (OS (Opendir ''/proc'')) = Some ps" using assms(5) by (auto simp: proc_fs_def)
  from find_free_cpu_result [OF assms(1-4) this] obtain r h where run: "find_free_cpu E s = Some (r, s\<lparr>hist := h\<rparr>)"
    and r: "if \<forall>i < n. i \<in> pinned_cpus E then r = -1
      else \<exists>i. r = int i \<and> i < n \<and> i \<notin> pinned_cpus E \<and> (\<forall>j < i. j \<in> pinned_cpus E)" by blast
  have all: "(\<forall>i < n. i \<in> pinned_cpus E) \<longleftrightarrow> (\<forall>i < n. i \<in> used)" using eq by simp
  have "\<exists>i. r = int i \<and> i < n \<and> i \<notin> used \<and> (\<forall>j < i. j \<in> used)" if "\<not> (\<forall>i < n. i \<in> used)"
  proof -
    from r that all obtain i where i: "r = int i" "i < n" "i \<notin> pinned_cpus E" "\<forall>j < i. j \<in> pinned_cpus E" by metis
    with eq [OF i(2)] eq [OF order.strict_trans [OF _ i(2)]] show ?thesis by blast
  qed
  with run r all show ?thesis by auto
qed

text \<open>C31. Where sysfs lists the CPUs of a core separated by commas, \<open>get_preferred_cpu\<close> returns the smallest CPU
  that shares its core with none of the CPUs the process may run on, and -1 exactly if there is none.\<close>

theorem get_preferred_cpu_own_core:
  assumes "stable_files E" and "\<And>h. a_int E h (OS Get_nprocs) = int n" and "0 < n" and "n < 2 ^ 31"
    and "\<And>h k. a_int E h (OS (Cpu_alloc k)) \<noteq> 0" and "\<And>h. a_cpus E h (OS (Sched_getaffinity pid)) = Some A"
    and "\<And>i. i < n \<Longrightarrow> i \<in> A \<Longrightarrow> sib i \<noteq> [] \<and> (\<forall>c \<in> set (sib i). c < n) \<and>
       file_text E (core_cpus_list_path i) = Some (print_cpu_list (sib i))"
    and "shared = (\<Union>i \<in> {i \<in> A. i < n}. set (sib i))"
  shows "\<exists>r h. get_preferred_cpu E pid s = Some (r, s\<lparr>hist := h\<rparr>) \<and>
    (if \<forall>i < n. i \<in> shared then r = -1
     else \<exists>i. r = int i \<and> i < n \<and> i \<notin> shared \<and> (\<forall>j < i. j \<in> shared))"
proof -
  let ?z = "CPU_ALLOC_SIZE (int n)"
  have z: "i < 8 * ?z" if "i < n" for i using CPU_ALLOC_SIZE_covers [of i "int n"] that by simp
  then have z0: "0 < ?z" using assms(3) by (cases ?z) auto
  have sib: "sib i \<noteq> [] \<and> (\<forall>c \<in> set (sib i). c < 8 * ?z \<and> c < 2 ^ 31) \<and>
      file_text E (core_cpus_list_path i) = Some (print_cpu_list (sib i))"
    if "i \<in> set [0..<n]" "CPU_ISSET_S i ?z A" for i
    using assms(7) [of i] that z assms(4) by (auto simp: CPU_ISSET_S_def)
  have "{i \<in> set [0..<n]. CPU_ISSET_S i ?z A} = {i \<in> A. i < n}" using z by (auto simp: CPU_ISSET_S_def)
  with assms(8) have sh: "shared = {} \<union> (\<Union>i \<in> {i \<in> set [0..<n]. CPU_ISSET_S i ?z A}. set (sib i))" by simp
  have col: "\<exists>h. collect_siblings E [0..<n] ?z A ?z {} w = Some ((True, shared), w\<lparr>hist := h\<rparr>)" for w :: "'a world_scheme"
    unfolding sh by (rule collect_siblings_lists [OF assms(1) z0 sib])
  let ?P = "\<lambda>i. \<not> CPU_ISSET_S i ?z shared"
  have al: "alloc_cpu_set E w = Some (Some ?z, w\<lparr>hist := hist w @ [OS Get_nprocs, OS (Cpu_alloc n)]\<rparr>)"
    for w :: "'a world_scheme"
    using assms(2,5) by (simp add: alloc_cpu_set_def ask_defs)
  obtain h where h: "collect_siblings E [0..<n] ?z A ?z {} (s\<lparr>hist := hist s @ [OS Get_nprocs, OS (Cpu_alloc n),
      OS (Sched_getaffinity pid), OS Get_nprocs, OS Get_nprocs, OS (Cpu_alloc n)]\<rparr>) = Some ((True, shared), s\<lparr>hist := h\<rparr>)"
    using col [of "s\<lparr>hist := hist s @ [OS Get_nprocs, OS (Cpu_alloc n), OS (Sched_getaffinity pid),
      OS Get_nprocs, OS Get_nprocs, OS (Cpu_alloc n)]\<rparr>"] by auto
  have run: "get_preferred_cpu E pid s = Some (case find ?P [0..<n] of None \<Rightarrow> -1 | Some i \<Rightarrow> int i, s\<lparr>hist := h\<rparr>)"
    using assms(2,6) h by (simp add: get_preferred_cpu_def al ask_defs)
  have P: "?P i \<longleftrightarrow> i \<notin> shared" if "i < n" for i using z that by (simp add: CPU_ISSET_S_def)
  show ?thesis
  proof (cases "find ?P [0..<n]")
    case None
    then show ?thesis using run find_upt_None [of ?P n] P by auto
  next
    case (Some i)
    then have "i < n \<and> i \<notin> shared \<and> (\<forall>j < i. j \<in> shared)"
      using find_upt_Some [of ?P n i] P by (meson order.strict_trans)
    then show ?thesis using run Some by auto
  qed
qed

text \<open>A range in the list of CPUs is not expanded: for the list \<open>a-b\<close> only CPU \<open>a\<close> is set, so the other CPUs
  of the core count as CPUs on cores of their own.\<close>

theorem set_core_cpus_range_truncated:
  assumes "0 < setsize" and "a < 8 * setsize" and "a < 2 ^ 31"
    and "opn = OS (Fopen (core_cpus_list_path cpu) ''r'')" and "a_int E (hist s) opn \<noteq> 0"
    and "a_text E (hist s @ [opn]) (OS (Read_text (core_cpus_list_path cpu))) = Some (print_nat 10 a @ ''-'' @ print_nat 10 b @ [CHR 0x0A])"
  shows "\<exists>s'. set_core_cpus E cpu S setsize s = Some ((0, insert a S), s')"
proof -
  let ?t = "print_nat 10 a @ ''-'' @ print_nat 10 b @ [CHR 0x0A]"
  have "CHR '','' \<notin> set ?t" using print_nat_10_plain by auto
  then have g: "getdelims (CHR '','') ?t = [?t]" by (intro getdelims_last) auto
  have "CHR 0x00 \<notin> set (print_nat 10 a @ ''-'' @ print_nat 10 b)" using print_nat_10_plain by auto
  then have "cstr (print_nat 10 a @ ''-'' @ print_nat 10 b) = print_nat 10 a @ ''-'' @ print_nat 10 b"
    unfolding cstr_def by (intro takeWhile_eq_all_conv [THEN iffD2]) auto
  then have ts: "token_string ?t = print_nat 10 a @ ''-'' @ print_nat 10 b" by (simp add: token_string_def butlast_append)
  have "stops 16 (''-'' @ print_nat 10 b)" by (simp add: stops_def in_base_def digit_value_def)
  then have v: "strtol0 (token_string ?t) = int a" unfolding ts using assms(3) by (intro strtol0_print) simp_all
  have "sint (word_of_int (int a) :: u32) = int a"
    using assms(3) by (simp only: signed_of_int) (simp add: signed_take_bit_int_eq_self)
  moreover have "unat (size_t_of_int (int a)) = a" using assms(3) unat_size_t_of_int [of "int a"] by simp
  ultimately have "set_core_tokens setsize [?t] S = (0, insert a S)"
    using assms(2,3) v by (simp only: set_core_tokens.simps Let_def) (simp add: LONG_MIN_def LONG_MAX_def CPU_SET_S_def)
  with g assms(1,4-6) show ?thesis by (simp only: set_core_cpus_def) (simp add: ask_defs stream_text_def)
qed

text \<open>\<open>set_cpu_affinity\<close> asks the kernel to bind the process to exactly the given CPU when it is one of the
  system's, and returns 0 exactly if the allocation and the kernel's call succeed.\<close>

theorem set_cpu_affinity_binds:
  assumes "0 \<le> cpu" and "cpu < a_int E (hist s) (OS Get_nprocs)" and "cpu < 2 ^ 31"
    and "n = nat (a_int E (hist s) (OS Get_nprocs))" and "sched = OS (Sched_setaffinity pid {nat cpu})"
  shows "set_cpu_affinity E cpu pid s =
    (let h = hist s @ [OS Get_nprocs, OS (Cpu_alloc n)]
     in if a_int E (hist s @ [OS Get_nprocs]) (OS (Cpu_alloc n)) = 0 then Some (-1, s\<lparr>hist := h\<rparr>)
        else Some (if a_int E h sched < 0 then -1 else 0, s\<lparr>hist := h @ [sched]\<rparr>))"
proof -
  have "nat cpu < 8 * CPU_ALLOC_SIZE (a_int E (hist s) (OS Get_nprocs))"
    using assms(1,2) by (intro CPU_ALLOC_SIZE_covers) simp
  moreover have "unat (size_t_of_int cpu) = nat cpu" using assms(1,3) by (intro unat_size_t_of_int) simp_all
  ultimately show ?thesis using assms(4,5)
    by (simp add: set_cpu_affinity_def alloc_cpu_set_def ask_defs CPU_SET_S_def Let_def)
qed

section \<open>Witnesses\<close>

text \<open>Four CPUs; a shell bound to CPU 0, a kernel thread bound to CPU 1, and cores of two CPUs each.\<close>

definition shell_thread :: thread where
  "shell_thread = \<lparr>th_head = [''Name:'' @ [CHR 0x09] @ ''sh''], th_vmsize = Some ''  100 kB'', th_mid = [''Threads: 1''],
     th_allowed = [(0, 0)], th_tail = [''Mems_allowed: 1'']\<rparr>"

definition kernel_thread :: thread where
  "kernel_thread = \<lparr>th_head = [''Name:'' @ [CHR 0x09] @ ''kworker''], th_vmsize = None, th_mid = [''Threads: 1''],
     th_allowed = [(1, 1)], th_tail = []\<rparr>"

definition cpu_text :: "call list \<Rightarrow> call \<Rightarrow> string option" where
  "cpu_text h c = (case c of OS (Read_text p) \<Rightarrow>
       if p = core_cpus_list_path 0 then Some (print_cpu_list [0, 1])
       else if p = ''/proc/9/task/9/status'' then Some (print_thread kernel_thread)
       else Some (print_thread shell_thread)
     | _ \<Rightarrow> None)"

definition cpu_dir :: "call list \<Rightarrow> call \<Rightarrow> string list option" where
  "cpu_dir h c = (case c of OS (Opendir p) \<Rightarrow>
       Some (if p = ''/proc'' then [''self'', ''7'', ''9''] else if p = ''/proc/7/task'' then [''.'', ''7''] else [''.'', ''9''])
     | _ \<Rightarrow> None)"

definition cpu_env :: env where
  "cpu_env = sample_env\<lparr>a_int := (\<lambda>h c. 4), a_text := cpu_text, a_dir := cpu_dir, a_cpus := (\<lambda>h c. Some {0})\<rparr>"

lemma cpu_env_stable: "stable_files cpu_env"
  by (simp add: stable_files_def cpu_env_def cpu_text_def cpu_dir_def)

definition cpu_threads :: "nat \<Rightarrow> nat \<Rightarrow> thread option" where
  "cpu_threads p t = Some (if p = 7 then shell_thread else kernel_thread)"

lemma sample_threads_ok: "thread_ok shell_thread" "thread_ok kernel_thread"
  by (simp_all add: thread_ok_def thread_lines_def plain_line_def shell_thread_def kernel_thread_def vmsize_key_def allowed_key_def
      print_nat.simps digit_char_def)

lemma print_7_9: "print_nat 10 7 = ''7''" "print_nat 10 9 = ''9''"
  by (simp_all add: print_nat.simps digit_char_def)

text \<open>Whatever the other calls answer, the files describe these threads.\<close>

lemma cpu_proc_fs:
  assumes "\<And>p m. f [] (OS (Fopen p m)) \<noteq> 0"
  shows "proc_fs (cpu_env\<lparr>a_int := f\<rparr>) {7, 9} (\<lambda>p. Some {p}) cpu_threads"
proof -
  have "core_cpus_list_path 0 \<noteq> ''/proc/7/task/7/status''" "core_cpus_list_path 0 \<noteq> ''/proc/9/task/9/status''"
    by (simp_all add: core_cpus_list_path_def snprintf_def PATH_MAX_def)
  with assms sample_threads_ok show ?thesis
    by (simp add: proc_fs_def dir_lists_def cpu_env_def cpu_dir_def cpu_text_def file_text_def stream_text_def print_7_9 cpu_threads_def)
qed

lemma cpu_bound: "bound_cpus {7, 9} (\<lambda>p. Some {p}) cpu_threads = {0}"
  by (auto simp: bound_cpus_def cpu_threads_def bound_to_def shell_thread_def kernel_thread_def)

text \<open>The kernel thread on CPU 1 does not count.\<close>

theorem find_free_cpu_smallest_witness:
  "\<exists>h. find_free_cpu cpu_env \<lparr>hist = []\<rparr> = Some (1, \<lparr>hist = h\<rparr>)"
proof -
  have env: "cpu_env\<lparr>a_int := (\<lambda>h c. 4)\<rparr> = cpu_env" by (simp add: cpu_env_def)
  have fs: "proc_fs cpu_env {7, 9} (\<lambda>p. Some {p}) cpu_threads" using cpu_proc_fs [of "\<lambda>h c. 4"] by (simp add: env)
  have "\<exists>r h. find_free_cpu cpu_env \<lparr>hist = []\<rparr> = Some (r, \<lparr>hist = []\<rparr>\<lparr>hist := h\<rparr>) \<and>
    (if \<forall>i < 4. i \<in> {0 :: nat} then r = -1 else \<exists>i. r = int i \<and> i < 4 \<and> i \<notin> {0} \<and> (\<forall>j < i. j \<in> {0 :: nat}))"
    by (rule find_free_cpu_smallest [OF cpu_env_stable _ _ _ fs cpu_bound [symmetric]]) (simp_all add: cpu_env_def MAX_CPUS_def)
  moreover have nf: "\<not> (\<forall>i < 4. i \<in> {0 :: nat})" by (auto intro!: exI [of _ 1])
  ultimately obtain i h where "find_free_cpu cpu_env \<lparr>hist = []\<rparr> = Some (int i, \<lparr>hist = h\<rparr>)"
    "i \<noteq> 0" "\<forall>j < i. j = 0"
    unfolding if_not_P [OF nf] by auto
  moreover from this have "i = 1" by (metis less_one nat_neq_iff)
  ultimately show ?thesis by simp
qed

theorem get_preferred_cpu_own_core_witness:
  "\<exists>h. get_preferred_cpu cpu_env 7 \<lparr>hist = []\<rparr> = Some (2, \<lparr>hist = h\<rparr>)"
proof -
  let ?shared = "\<Union>i \<in> {i \<in> {0}. i < 4}. set ((\<lambda>_. [0, 1 :: nat]) (i :: nat))"
  have "\<exists>r h. get_preferred_cpu cpu_env 7 \<lparr>hist = []\<rparr> = Some (r, \<lparr>hist = []\<rparr>\<lparr>hist := h\<rparr>) \<and>
    (if \<forall>i < 4. i \<in> ?shared then r = -1
     else \<exists>i. r = int i \<and> i < 4 \<and> i \<notin> ?shared \<and> (\<forall>j < i. j \<in> ?shared))"
    by (rule get_preferred_cpu_own_core [OF cpu_env_stable, where A = "{0}" and sib = "\<lambda>_. [0, 1]"])
      (simp_all add: cpu_env_def cpu_text_def file_text_def stream_text_def)
  moreover have "?shared = {0, 1}" by auto
  moreover have "\<not> (\<forall>i < 4. i \<in> {0, 1 :: nat})" by (auto intro!: exI [of _ 2])
  ultimately obtain i h where "get_preferred_cpu cpu_env 7 \<lparr>hist = []\<rparr> = Some (int i, \<lparr>hist = h\<rparr>)"
    "i \<notin> {0, 1}" "\<forall>j < i. j \<in> {0, 1}"
    by (simp only:) auto
  moreover from this have "i = 2" by (cases "2 < i") auto
  ultimately show ?thesis by simp
qed

theorem set_core_cpus_range_truncated_witness:
  "\<exists>s'. set_core_cpus (sample_env\<lparr>a_int := \<lambda>h c. 3, a_text := \<lambda>h c. Some (print_nat 10 0 @ ''-'' @ print_nat 10 3 @ [CHR 0x0A])\<rparr>) 0 {} 8
     \<lparr>hist = []\<rparr> = Some ((0, {0}), s')"
  by (rule set_core_cpus_range_truncated [OF _ _ _ refl]) simp_all

theorem set_cpu_affinity_binds_witness:
  "set_cpu_affinity cpu_env 2 7 \<lparr>hist = []\<rparr> =
     Some (0, \<lparr>hist = [OS Get_nprocs, OS (Cpu_alloc 4), OS (Sched_setaffinity 7 {2})]\<rparr>)"
  using set_cpu_affinity_binds [OF _ _ _ refl refl, of 2 cpu_env "\<lparr>hist = []\<rparr>" 7] by (simp add: cpu_env_def Let_def)

end
