(* ===== verification/Sysfs.thy ===== *)
theory Sysfs
  imports MapInfo CpuAffinity
begin

text \<open>
  The sysfs attributes of the u-dma-buf and ksight devices (\<open>src/utils.c\<close>): \<open>get_udmabuf_info\<close>,
  \<open>get_ksight_info\<close>, \<open>ksight_set_traced_pid\<close> and \<open>ksight_set_enable\<close>. They are compared with the text
  formats of the two drivers. The last part shows, for them and for the procedures of \<open>MapInfo\<close> and
  \<open>CpuAffinity\<close>, that every descriptor, stream and directory they open is closed again.
\<close>

section \<open>Reading attributes\<close>

definition sizeof_attr :: nat where "sizeof_attr = 1024"

text \<open>The array \<open>attr\<close> after \<open>read\<close>, as a C string. An array without a terminating null character must not
  be scanned.\<close>

definition attr_string :: "string \<Rightarrow> string option" where
  "attr_string t = (if sizeof_attr \<le> length (cstr t) then None else Some (cstr t))"

text \<open>\<open>Stat_isdir\<close> answers 1 if \<open>stat\<close> succeeds and finds a directory, and 0 otherwise.\<close>

definition is_dir :: "env \<Rightarrow> string \<Rightarrow> 'z world_scheme \<Rightarrow> (bool \<times> 'z world_scheme) option" where
  "is_dir E path s = do { (r, s) \<leftarrow> os_int E (Stat_isdir path) s; Some (r \<noteq> 0, s) }"

text \<open>Open, read, scan with \<open>scan\<close> and close: the sequence that occurs three times in the file. The result is
  -1 with the old value, or 0 with the scanned value (the old one if nothing matches).\<close>

definition read_attr ::
  "env \<Rightarrow> string \<Rightarrow> (string \<Rightarrow> 'a \<Rightarrow> 'a) \<Rightarrow> 'a \<Rightarrow> 'z world_scheme \<Rightarrow> ((int \<times> 'a) \<times> 'z world_scheme) option" where
  "read_attr E path scan old s = do {
     (fd, s) \<leftarrow> os_int E (Open (snprintf PATH_MAX path)) s;
     if fd < 0 then Some ((-1, old), s)
     else do {
       (t, s) \<leftarrow> ask (a_text E) (OS (Read fd (of_nat sizeof_attr))) s;
       case t of
         None \<Rightarrow> do { (_, s) \<leftarrow> os_int E (Close fd) s; Some ((-1, old), s) }
       | Some t \<Rightarrow> do {
           attr \<leftarrow> attr_string t;
           (_, s) \<leftarrow> os_int E (Close fd) s;
           Some ((0, scan attr old), s)
         }
     }
   }"

definition sscanf_lx :: "string \<Rightarrow> u64 \<Rightarrow> u64" where
  "sscanf_lx attr old = (case scan_lx attr of None \<Rightarrow> old | Some (v, _) \<Rightarrow> v)"

definition sscanf_ld :: "string \<Rightarrow> u64 \<Rightarrow> u64" where
  "sscanf_ld attr old = (case scan_ld attr of None \<Rightarrow> old | Some (v, _) \<Rightarrow> word_of_int v)"

definition udmabuf_dir :: "int \<Rightarrow> string" where
  "udmabuf_dir udmabuf_num = ''/sys/class/u-dma-buf/udmabuf'' @ print_int udmabuf_num"

definition get_udmabuf_info ::
  "env \<Rightarrow> int \<Rightarrow> u64 \<Rightarrow> u64 \<Rightarrow> 'z world_scheme \<Rightarrow> ((int \<times> u64 \<times> u64) \<times> 'z world_scheme) option" where
  "get_udmabuf_info E udmabuf_num phys_addr sz s = do {
     (dir, s) \<leftarrow> is_dir E (snprintf PATH_MAX (udmabuf_dir udmabuf_num)) s;
     if \<not> dir then Some ((-1, phys_addr, sz), s)
     else do {
       ((r, phys_addr), s) \<leftarrow> read_attr E (udmabuf_dir udmabuf_num @ ''/phys_addr'') sscanf_lx phys_addr s;
       if r < 0 then Some ((-1, phys_addr, sz), s)
       else do {
         ((r, sz), s) \<leftarrow> read_attr E (udmabuf_dir udmabuf_num @ ''/size'') sscanf_ld sz s;
         Some ((if r < 0 then -1 else 0, phys_addr, sz), s)
       }
     }
   }"

definition ksight_path :: string where "ksight_path = ''/sys/class/ksight/ksight''"

definition get_ksight_info :: "env \<Rightarrow> u64 \<Rightarrow> 'z world_scheme \<Rightarrow> ((int \<times> u64) \<times> 'z world_scheme) option" where
  "get_ksight_info E phys_addr s = do {
     (dir, s) \<leftarrow> is_dir E ksight_path s;
     if \<not> dir then Some ((-1, phys_addr), s)
     else read_attr E (ksight_path @ ''/ring_phys'') sscanf_lx phys_addr s
   }"

section \<open>Writing attributes\<close>

text \<open>\<open>write\<close> answers the number of bytes written.\<close>

definition write_attr :: "env \<Rightarrow> string \<Rightarrow> int \<Rightarrow> 'z world_scheme \<Rightarrow> (int \<times> 'z world_scheme) option" where
  "write_attr E name v s = do {
     (dir, s) \<leftarrow> is_dir E ksight_path s;
     if \<not> dir then Some (-1, s)
     else do {
       (fd, s) \<leftarrow> os_int E (Open (ksight_path @ ''/'' @ name)) s;
       if fd < 0 then Some (-1, s)
       else do {
         let buf = snprintf 64 (print_int v @ [CHR 0x0A]);
         (n, s) \<leftarrow> os_int E (Write fd buf) s;
         (_, s) \<leftarrow> os_int E (Close fd) s;
         Some (if n \<noteq> int (length buf) then -1 else 0, s)
       }
     }
   }"

definition ksight_set_traced_pid :: "env \<Rightarrow> int \<Rightarrow> 'z world_scheme \<Rightarrow> (int \<times> 'z world_scheme) option" where
  "ksight_set_traced_pid E pid s = write_attr E ''traced_pid'' pid s"

definition ksight_set_enable :: "env \<Rightarrow> int \<Rightarrow> 'z world_scheme \<Rightarrow> (int \<times> 'z world_scheme) option" where
  "ksight_set_enable E enable s = write_attr E ''enable'' enable s"

section \<open>The text formats of the drivers\<close>

lemma scan_number_0x:
  assumes "ds \<noteq> []" and "\<forall>d \<in> set ds. d < 16" and "stops 16 r"
  shows "scan_number 16 (''0x'' @ map digit_char ds @ r) = Some (int (digits_value 16 (map digit_char ds)), r)"
proof -
  obtain d es where ds: "ds = d # es" using assms(1) by (cases ds) auto
  have "in_base 16 (digit_char d)" using assms(2) ds by (simp add: in_base_def)
  then have "skip_0x (''0x'' @ map digit_char ds @ r) = map digit_char ds @ r"
    by (simp add: ds skip_0x_def)
  moreover have "scan_sign (skip_space (''0x'' @ map digit_char ds @ r)) = (False, ''0x'' @ map digit_char ds @ r)"
    by (simp add: skip_space_def scan_sign_def isspace_def)
  ultimately show ?thesis
    using takeWhile_stops [OF assms(2) _ assms(3)] assms(1) by (simp add: scan_number_def Let_def)
qed

lemma sscanf_lx_0x:
  assumes "stops 16 r"
  shows "sscanf_lx (''0x'' @ print_hex8 w @ r) old = w"
proof -
  obtain ds where "ds \<noteq> []" "print_hex8 w = map digit_char ds" "\<forall>d \<in> set ds. d < 16"
    "digits_value 16 (print_hex8 w) = unat w"
    using print_hex8_digits by blast
  with scan_number_0x [OF _ _ assms, of ds]
  have "scan_number 16 (''0x'' @ print_hex8 w @ r) = Some (int (unat w), r)" by simp
  then show ?thesis
    using unsigned_less [of w, where 'a = int] by (simp only: sscanf_lx_def scan_lx_def) (simp add: to_ulong_def)
qed

lemma stops_newline [simp]: "stops b [CHR 0x0A] \<longleftrightarrow> b \<le> 16"
  by (auto simp: stops_def in_base_def digit_value_def)

lemma sscanf_ld_print: "unat w < 2 ^ 63 \<Longrightarrow> sscanf_ld (print_nat 10 (unat w) @ [CHR 0x0A]) old = w"
  by (simp add: sscanf_ld_def scan_ld_print)

lemma print_nat_no_null:
  assumes "2 \<le> b" and "b \<le> 16"
  shows "CHR 0x00 \<notin> set (print_nat b n)"
proof -
  obtain ds where ds: "print_nat b n = map digit_char ds" "\<forall>d \<in> set ds. d < b"
    using print_nat_digits [OF assms] by blast
  show ?thesis
  proof
    assume "CHR 0x00 \<in> set (print_nat b n)"
    then obtain d where "d \<in> set ds" "CHR 0x00 = digit_char d" using ds by auto
    then show False using ds(2) assms(2) digit_char_plain(7) [of d] by auto
  qed
qed

lemma cstr_id: "CHR 0x00 \<notin> set t \<Longrightarrow> cstr t = t"
  unfolding cstr_def by (intro takeWhile_eq_all_conv [THEN iffD2]) auto

lemma attr_string_id: "CHR 0x00 \<notin> set t \<Longrightarrow> length t < 1024 \<Longrightarrow> attr_string t = Some t"
  by (simp add: attr_string_def cstr_id sizeof_attr_def)

lemma attr_string_address: "attr_string (''0x'' @ print_hex8 w @ [CHR 0x0A]) = Some (''0x'' @ print_hex8 w @ [CHR 0x0A])"
proof -
  have "length (print_nat 16 (unat w)) \<le> 16"
    using unsigned_less [of w, where 'a = nat] by (intro length_print_nat) simp_all
  then have "length (print_hex8 w) \<le> 16" by (simp add: print_hex8_def Let_def)
  moreover have "CHR 0x00 \<notin> set (''0x'' @ print_hex8 w @ [CHR 0x0A])" using print_hex8_plain by auto
  ultimately show ?thesis by (intro attr_string_id) simp_all
qed

lemma attr_string_size: "attr_string (print_nat 10 (unat (w :: u64)) @ [CHR 0x0A]) = Some (print_nat 10 (unat w) @ [CHR 0x0A])"
proof -
  have "unat w < 10 ^ 20" using unsigned_less [of w, where 'a = nat] by simp
  then have "length (print_nat 10 (unat w)) \<le> 20" by (intro length_print_nat) simp_all
  moreover have "CHR 0x00 \<notin> set (print_nat 10 (unat w) @ [CHR 0x0A])" using print_nat_no_null [of 10] by simp
  ultimately show ?thesis by (intro attr_string_id) simp_all
qed

lemma read_attr_value:
  assumes "\<And>h p. 0 \<le> a_int E h (OS (Open p))"
    and "\<And>h fd n. a_text E (h @ [OS (Open (snprintf PATH_MAX p))]) (OS (Read fd n)) = Some t"
    and "attr_string t = Some t"
  shows "\<exists>h. read_attr E p scan old s = Some ((0, scan t old), s\<lparr>hist := h\<rparr>)"
  using assms(1) [THEN leD] assms(2,3) by (auto simp: read_attr_def ask_defs)

section \<open>Open files\<close>

text \<open>What a procedure has opened and has to close: a descriptor of \<open>open\<close>, a stream of \<open>fopen\<close>, a directory of \<open>opendir\<close>.\<close>

datatype resource = Fd int | Stream int | Dir string

fun file_step :: "env \<Rightarrow> call list \<Rightarrow> call \<Rightarrow> resource list \<Rightarrow> resource list" where
  "file_step E h (OS (Open f)) F = (let fd = a_int E h (OS (Open f)) in if fd < 0 then F else Fd fd # F)"
| "file_step E h (OS (Close fd)) F = remove1 (Fd fd) F"
| "file_step E h (OS (Fopen f m)) F = (let fp = a_int E h (OS (Fopen f m)) in if fp = 0 then F else Stream fp # F)"
| "file_step E h (OS (Fclose fp)) F = remove1 (Stream fp) F"
| "file_step E h (OS (Opendir p)) F = (if a_dir E h (OS (Opendir p)) = None then F else Dir p # F)"
| "file_step E h (OS (Closedir p)) F = remove1 (Dir p) F"
| "file_step E h c F = F"

text \<open>What is open after some calls, the most recent first.\<close>

fun open_files :: "env \<Rightarrow> call list \<Rightarrow> call list \<Rightarrow> resource list \<Rightarrow> resource list" where
  "open_files E h [] F = F"
| "open_files E h (c # cs) F = open_files E (h @ [c]) cs (file_step E h c F)"

lemma open_files_append: "open_files E h (cs @ ds) F = open_files E (h @ cs) ds (open_files E h cs F)"
  by (induction cs arbitrary: h F) simp_all

text \<open>A descriptor that \<open>open\<close> has returned is not negative.\<close>

definition valid_files :: "resource list \<Rightarrow> bool" where
  "valid_files F \<longleftrightarrow> (\<forall>fd. Fd fd \<in> set F \<longrightarrow> 0 \<le> fd)"

lemma valid_files_Cons [simp]: "valid_files (Stream p # F) = valid_files F" "valid_files (Dir d # F) = valid_files F"
  by (simp_all add: valid_files_def)

lemma remove1_invalid: "fd < 0 \<Longrightarrow> valid_files F \<Longrightarrow> remove1 (Fd fd) F = F"
  by (rule remove1_idem) (auto simp: valid_files_def)

text \<open>\<open>balanced E h cs\<close>: after the calls \<open>cs\<close> the same files are open as before. \<open>closes_files E s m\<close>: if the
  procedure ends, it has made some more calls, and these are balanced.\<close>

definition balanced :: "env \<Rightarrow> call list \<Rightarrow> call list \<Rightarrow> bool" where
  "balanced E h cs \<longleftrightarrow> (\<forall>F. valid_files F \<longrightarrow> open_files E h cs F = F)"

definition closes_files :: "env \<Rightarrow> 'z world_scheme \<Rightarrow> ('a \<times> 'z world_scheme) option \<Rightarrow> bool" where
  "closes_files E s m \<longleftrightarrow> (\<forall>r s'. m = Some (r, s') \<longrightarrow> (\<exists>cs. hist s' = hist s @ cs \<and> balanced E (hist s) cs))"

lemma balanced_append: "balanced E h cs \<Longrightarrow> balanced E (h @ cs) ds \<Longrightarrow> balanced E h (cs @ ds)"
  by (simp add: balanced_def open_files_append)

lemma closes_files_Some [intro!]: "closes_files E s (Some (r, s))"
  by (auto simp: closes_files_def balanced_def intro: exI [of _ "[]"])

lemma closes_files_None [intro!]: "closes_files E s None"
  by (simp add: closes_files_def)

lemma closes_files_bind:
  assumes "closes_files E s m" and "\<And>r s'. m = Some (r, s') \<Longrightarrow> closes_files E s' (f r s')"
  shows "closes_files E s (m \<bind> (\<lambda>(r, s'). f r s'))"
  unfolding closes_files_def
proof (intro allI impI)
  fix r s'' assume "m \<bind> (\<lambda>(r, s'). f r s') = Some (r, s'')"
  then obtain a s' where m: "m = Some (a, s')" and f: "f a s' = Some (r, s'')"
    by (auto simp: bind_eq_Some_conv)
  from assms(1) m obtain cs where cs: "hist s' = hist s @ cs" "balanced E (hist s) cs"
    unfolding closes_files_def by blast
  from assms(2) [OF m] f obtain ds where "hist s'' = hist s' @ ds" "balanced E (hist s') ds"
    unfolding closes_files_def by blast
  with cs show "\<exists>cs. hist s'' = hist s @ cs \<and> balanced E (hist s) cs"
    by (intro exI [of _ "cs @ ds"]) (simp add: balanced_append)
qed

lemma closes_files_after:
  assumes "balanced E (hist s) cs" and "closes_files E (s\<lparr>hist := hist s @ cs\<rparr>) m"
  shows "closes_files E s m"
  unfolding closes_files_def
proof (intro allI impI)
  fix r s' assume "m = Some (r, s')"
  with assms(2) obtain ds where "hist s' = hist s @ cs @ ds" "balanced E (hist s @ cs) ds"
    unfolding closes_files_def by auto
  with assms(1) show "\<exists>cs. hist s' = hist s @ cs \<and> balanced E (hist s) cs"
    by (intro exI [of _ "cs @ ds"]) (simp add: balanced_append)
qed

text \<open>A directory is opened, a balanced procedure follows, and the directory is closed.\<close>

lemma balanced_directory:
  assumes "a_dir E h (OS (Opendir p)) \<noteq> None" and "balanced E (h @ [OS (Opendir p)]) cs"
  shows "balanced E h (OS (Opendir p) # cs @ [OS (Closedir p)])"
  using assms by (auto simp: balanced_def open_files_append)

text \<open>Calls that open and close nothing.\<close>

fun neutral :: "call \<Rightarrow> bool" where
  "neutral (OS (Open f)) = False"
| "neutral (OS (Close fd)) = False"
| "neutral (OS (Fopen f m)) = False"
| "neutral (OS (Fclose fp)) = False"
| "neutral (OS (Opendir p)) = False"
| "neutral (OS (Closedir p)) = False"
| "neutral c = True"

lemma file_step_neutral: "neutral c \<Longrightarrow> file_step E h c F = F"
  by (cases "(E, h, c, F)" rule: file_step.cases) simp_all

lemma closes_files_ask: "neutral c \<Longrightarrow> closes_files E s (ask f c s)"
  by (auto simp: closes_files_def balanced_def ask_def file_step_neutral)

lemma closes_files_os_int: "neutral (OS c) \<Longrightarrow> closes_files E s (os_int E c s)"
  by (simp add: os_int_def closes_files_ask)

section \<open>The procedures of utils.c close their files\<close>

lemma closes_files_is_dir: "closes_files E s (is_dir E p s)"
  unfolding is_dir_def by (auto intro!: closes_files_bind closes_files_os_int)

lemma closes_files_read_attr: "closes_files E s (read_attr E p scan old s)"
  by (auto simp: closes_files_def balanced_def read_attr_def ask_defs bind_eq_Some_conv
      split: option.splits if_splits)

lemma closes_files_write_attr: "closes_files E s (write_attr E name v s)"
  unfolding write_attr_def
  by (intro closes_files_bind closes_files_is_dir)
    (auto simp: closes_files_def balanced_def ask_defs Let_def split: if_splits)

lemma closes_files_map_regions: "closes_files E s (map_regions E ids mi s)"
proof (induction ids arbitrary: mi s)
  case Nil
  then show ?case by auto
next
  case (Cons i ids)
  let ?o = "OS (Open (mi_path (mi i)))"
  let ?fd = "a_int E (hist s) ?o"
  let ?m = "OS (Mmap_file ?fd (ALIGN_UP (mi_end (mi i) - mi_start (mi i)) PAGE_SIZE) (mi_offset (mi i)))"
  let ?cs = "[?o, ?m, OS (Close ?fd)]"
  show ?case
  proof (cases "?fd < -1")
    case True
    then show ?thesis by (auto simp: closes_files_def balanced_def ask_defs)
  next
    case False
    show ?thesis
    proof (rule closes_files_after [where cs = ?cs])
      show "balanced E (hist s) ?cs" using remove1_invalid by (auto simp: balanced_def Let_def)
      show "closes_files E (s\<lparr>hist := hist s @ ?cs\<rparr>) (map_regions E (i # ids) mi s)"
        using False by (auto simp: ask_defs Let_def Cons.IH simp del: fun_upd_apply)
    qed
  qed
qed

lemma balanced_stream:
  "fp = a_int E h (OS (Fopen p m)) \<Longrightarrow> fp \<noteq> 0 \<Longrightarrow> neutral c \<Longrightarrow> balanced E h [OS (Fopen p m), c, OS (Fclose fp)]"
  by (simp add: balanced_def file_step_neutral)

lemma balanced_no_stream: "a_int E h (OS (Fopen p m)) = 0 \<Longrightarrow> balanced E h [OS (Fopen p m)]"
  by (simp add: balanced_def)

lemma closes_files_setup_map_info: "closes_files E s (setup_map_info E l pid mi m s)"
proof (cases "a_int E (hist s) (OS (Fopen (maps_path pid) ''r'')) = 0")
  case True
  then show ?thesis
    by (intro closes_files_after [OF balanced_no_stream [OF True]]) (auto simp: setup_map_info_def ask_defs)
next
  case False
  let ?c = "OS (Read_text (maps_path pid))"
  have "neutral ?c" by simp
  from closes_files_after [OF balanced_stream [OF refl False this]] False show ?thesis
    by (auto simp: setup_map_info_def ask_defs split: prod.split intro!: closes_files_bind closes_files_map_regions)
qed

lemma closes_files_scan_tasks: "closes_files E s (scan_tasks E p ts U s)"
proof (induction ts arbitrary: U s)
  case Nil
  then show ?case by auto
next
  case (Cons t ts)
  let ?f = "status_path p t"
  show ?case
  proof (cases "numeric_name t")
    case False
    then show ?thesis by (simp add: Cons)
  next
    case num: True
    show ?thesis
    proof (cases "a_int E (hist s) (OS (Fopen ?f ''r'')) = 0")
      case True
      then show ?thesis using num
        by (intro closes_files_after [OF balanced_no_stream [OF True]]) (simp add: ask_defs Cons)
    next
      case False
      have "neutral (OS (Read_text ?f))" by simp
      from False num show ?thesis
        by (intro closes_files_after [OF balanced_stream [OF refl False \<open>neutral (OS (Read_text ?f))\<close>]]) (simp add: ask_defs Cons)
    qed
  qed
qed

lemma closes_files_scan_procs: "closes_files E s (scan_procs E ps U s)"
proof (induction ps arbitrary: U s)
  case Nil
  then show ?case by auto
next
  case (Cons p ps)
  let ?d = "OS (Opendir (task_path p))"
  show ?case
  proof (cases "numeric_name p")
    case False
    then show ?thesis by (simp add: Cons)
  next
    case num: True
    show ?thesis
    proof (cases "a_dir E (hist s) ?d")
      case None
      then have "balanced E (hist s) [?d]" by (simp add: balanced_def)
      from None num show ?thesis by (intro closes_files_after [OF \<open>balanced E (hist s) [?d]\<close>]) (simp add: ask_defs Cons)
    next
      case (Some ts)
      let ?s = "s\<lparr>hist := hist s @ [?d]\<rparr>"
      show ?thesis
      proof (cases "scan_tasks E p ts U ?s")
        case None
        then show ?thesis using num Some by (auto simp: ask_defs)
      next
        case (Some y)
        obtain V t where y: "y = (V, t)" by (cases y)
        with closes_files_scan_tasks [of E ?s p ts U] Some obtain cs where
          t: "hist t = hist s @ ?d # cs" "balanced E (hist s @ [?d]) cs" by (auto simp: closes_files_def)
        have "appends ?s (scan_tasks E p ts U ?s)" by (rule appends_scan_tasks)
        with Some y t(1) have t': "t = s\<lparr>hist := hist s @ ?d # cs\<rparr>" by (auto simp: appends_def)
        have "a_dir E (hist s) ?d \<noteq> None" using \<open>a_dir E (hist s) ?d = Some ts\<close> by simp
        show ?thesis
          using num \<open>a_dir E (hist s) ?d = Some ts\<close> Some y t'
          by (intro closes_files_after [OF balanced_directory [OF \<open>a_dir E (hist s) ?d \<noteq> None\<close> t(2)]]) (simp add: ask_defs Cons)
      qed
    qed
  qed
qed

lemma closes_files_find_free_cpu: "closes_files E s (find_free_cpu E s)"
proof -
  have search: "closes_files E t (do {
       (procs, s) \<leftarrow> ask (a_dir E) (OS (Opendir ''/proc'')) t;
       case procs of
         None \<Rightarrow> Some (-1, s)
       | Some ps \<Rightarrow> do {
           (cpu_used, s) \<leftarrow> scan_procs E ps {} s;
           (_, s) \<leftarrow> os_int E (Closedir ''/proc'') s;
           i \<leftarrow> first_free cpu_used [0..<nat n];
           Some (i, s)
         }
     })" for n t
  proof (cases "a_dir E (hist t) (OS (Opendir ''/proc''))")
    case None
    then show ?thesis by (auto simp: closes_files_def balanced_def ask_defs)
  next
    case (Some ps)
    show ?thesis unfolding closes_files_def
    proof (intro allI impI)
      let ?t = "t\<lparr>hist := hist t @ [OS (Opendir ''/proc'')]\<rparr>"
      fix r s'
      assume run: "do {
         (procs, s) \<leftarrow> ask (a_dir E) (OS (Opendir ''/proc'')) t;
         case procs of
           None \<Rightarrow> Some (-1, s)
         | Some ps \<Rightarrow> do {
             (cpu_used, s) \<leftarrow> scan_procs E ps {} s;
             (_, s) \<leftarrow> os_int E (Closedir ''/proc'') s;
             i \<leftarrow> first_free cpu_used [0..<nat n];
             Some (i, s)
           }
       } = Some (r, s')"
      with Some obtain U u where u: "scan_procs E ps {} ?t = Some (U, u)" by (auto simp: ask_defs bind_eq_Some_conv)
      with closes_files_scan_procs [of E ?t ps "{}"] obtain cs where
        cs: "hist u = hist t @ OS (Opendir ''/proc'') # cs" "balanced E (hist t @ [OS (Opendir ''/proc'')]) cs"
        by (auto simp: closes_files_def)
      have "hist s' = hist u @ [OS (Closedir ''/proc'')]" using run Some u by (auto simp: ask_defs bind_eq_Some_conv)
      with cs balanced_directory [of E "hist t" "''/proc''" cs] Some
      show "\<exists>cs. hist s' = hist t @ cs \<and> balanced E (hist t) cs" by auto
    qed
  qed
  show ?thesis unfolding find_free_cpu_def by (auto intro!: closes_files_bind closes_files_os_int search)
qed

lemma closes_files_set_core_cpus: "closes_files E s (set_core_cpus E cpu S n s)"
proof (cases "n = 0")
  case False
  let ?f = "core_cpus_list_path cpu"
  show ?thesis
  proof (cases "a_int E (hist s) (OS (Fopen ?f ''r'')) = 0")
    case True
    from closes_files_after [OF balanced_no_stream [OF True]] True show ?thesis by (auto simp: set_core_cpus_def ask_defs)
  next
    case fp: False
    have "neutral (OS (Read_text ?f))" by simp
    from closes_files_after [OF balanced_stream [OF refl fp this]] fp False show ?thesis by (auto simp: set_core_cpus_def ask_defs)
  qed
qed (auto simp: set_core_cpus_def)

lemma closes_files_collect_siblings: "closes_files E s (collect_siblings E ids n S m C s)"
proof (induction ids arbitrary: C s)
  case Nil
  then show ?case by auto
next
  case (Cons i ids)
  show ?case unfolding collect_siblings.simps
    by (auto intro!: closes_files_bind closes_files_set_core_cpus Cons simp: Cons)
qed

lemma closes_files_alloc_cpu_set: "closes_files E s (alloc_cpu_set E s)"
  unfolding alloc_cpu_set_def by (auto intro!: closes_files_bind closes_files_os_int)

lemma closes_files_get_preferred_cpu: "closes_files E s (get_preferred_cpu E pid s)"
  unfolding get_preferred_cpu_def
  by (auto intro!: closes_files_bind closes_files_os_int closes_files_ask closes_files_alloc_cpu_set closes_files_collect_siblings
      split: option.split)

section \<open>Properties\<close>

text \<open>C29. \<open>get_udmabuf_info\<close> reads back what the u-dma-buf driver publishes: if the attribute files hold the
  physical address as \<open>0x\<close> with hexadecimal digits and the size in decimal, it returns 0 and stores
  exactly these two numbers.\<close>

theorem get_udmabuf_info_roundtrip:
  assumes "\<And>h. a_int E h (OS (Stat_isdir (snprintf PATH_MAX (udmabuf_dir k)))) \<noteq> 0" and "\<And>h p. 0 \<le> a_int E h (OS (Open p))"
    and "\<And>h fd n. a_text E (h @ [OS (Open (snprintf PATH_MAX (udmabuf_dir k @ ''/phys_addr'')))]) (OS (Read fd n)) =
        Some (''0x'' @ print_hex8 addr @ [CHR 0x0A])"
    and "\<And>h fd n. a_text E (h @ [OS (Open (snprintf PATH_MAX (udmabuf_dir k @ ''/size'')))]) (OS (Read fd n)) =
        Some (print_nat 10 (unat sz) @ [CHR 0x0A])"
    and "unat sz < 2 ^ 63"
  shows "\<exists>s'. get_udmabuf_info E k phys0 sz0 s = Some ((0, addr, sz), s')"
proof -
  have r1: "\<exists>h. read_attr E (udmabuf_dir k @ ''/phys_addr'') sscanf_lx phys0 w = Some ((0, addr), w\<lparr>hist := h\<rparr>)"
    for w :: "'a world_scheme"
    using read_attr_value [OF assms(2,3) attr_string_address, of sscanf_lx phys0 w]
    by (simp only: sscanf_lx_0x stops_newline order_refl)
  have r2: "\<exists>h. read_attr E (udmabuf_dir k @ ''/size'') sscanf_ld sz0 w = Some ((0, sz), w\<lparr>hist := h\<rparr>)"
    for w :: "'a world_scheme"
    using read_attr_value [OF assms(2,4) attr_string_size, of sscanf_ld sz0 w]
    by (simp only: sscanf_ld_print [OF assms(5)])
  obtain w :: "'a world_scheme" where
    d: "is_dir E (snprintf PATH_MAX (udmabuf_dir k)) s = Some (True, w)"
    using assms(1) by (simp add: is_dir_def ask_defs)
  from r1 obtain w1 where "read_attr E (udmabuf_dir k @ ''/phys_addr'') sscanf_lx phys0 w = Some ((0, addr), w1)" by blast
  moreover from r2 obtain w2 where "read_attr E (udmabuf_dir k @ ''/size'') sscanf_ld sz0 w1 = Some ((0, sz), w2)" by blast
  ultimately show ?thesis using d by (simp add: get_udmabuf_info_def)
qed

text \<open>C30. None of the procedures that read or write sysfs attributes, scan \<open>/proc\<close> or map files leaves anything open: after
  each of them, on every outcome, the descriptors, the streams and the directories that are open are those that were
  open before.\<close>

theorem sysfs_descriptors_closed:
  "closes_files E s (get_udmabuf_info E k addr sz s) \<and> closes_files E s (get_ksight_info E addr s) \<and>
   closes_files E s (ksight_set_traced_pid E pid s) \<and> closes_files E s (ksight_set_enable E en s) \<and>
   closes_files E s (setup_map_info E l pid mi m s) \<and> closes_files E s (find_free_cpu E s) \<and>
   closes_files E s (get_preferred_cpu E pid s)"
proof (intro conjI)
  show "closes_files E s (get_udmabuf_info E k addr sz s)"
    unfolding get_udmabuf_info_def
    by (auto intro!: closes_files_bind closes_files_is_dir closes_files_read_attr)
  show "closes_files E s (get_ksight_info E addr s)"
    unfolding get_ksight_info_def
    by (auto intro!: closes_files_bind closes_files_is_dir closes_files_read_attr)
  show "closes_files E s (ksight_set_traced_pid E pid s)" "closes_files E s (ksight_set_enable E en s)"
    by (simp_all add: ksight_set_traced_pid_def ksight_set_enable_def closes_files_write_attr)
qed (rule closes_files_setup_map_info closes_files_find_free_cpu closes_files_get_preferred_cpu)+

text \<open>\<open>ksight_set_traced_pid\<close> writes the decimal process id and a newline to the attribute \<open>traced_pid\<close>, once,
  and returns 0 exactly if the device exists, the attribute can be opened and all of the text was written.\<close>

theorem ksight_set_traced_pid_writes:
  assumes "- (2 ^ 31) \<le> pid" and "pid < 2 ^ 31"
    and "st = OS (Stat_isdir ''/sys/class/ksight/ksight'')"
    and "opn = OS (Open ''/sys/class/ksight/ksight/traced_pid'')"
    and "wr = OS (Write (a_int E (hist s @ [st]) opn) (print_int pid @ [CHR 0x0A]))"
  shows "ksight_set_traced_pid E pid s =
    (if a_int E (hist s) st = 0 then Some (-1, s\<lparr>hist := hist s @ [st]\<rparr>)
     else if a_int E (hist s @ [st]) opn < 0 then Some (-1, s\<lparr>hist := hist s @ [st, opn]\<rparr>)
     else Some (if a_int E (hist s @ [st, opn]) wr = int (length (print_int pid @ [CHR 0x0A])) then 0 else -1,
            s\<lparr>hist := hist s @ [st, opn, wr, OS (Close (a_int E (hist s @ [st]) opn))]\<rparr>))"
proof -
  have "nat \<bar>pid\<bar> < 10 ^ 10" using assms(1,2) by simp
  then have "length (print_nat 10 (nat \<bar>pid\<bar>)) \<le> 10" by (intro length_print_nat) simp_all
  then have "length (print_int pid) \<le> 11" by (auto simp: print_int_def)
  then have b: "snprintf 64 (print_int pid @ [CHR 0x0A]) = print_int pid @ [CHR 0x0A]"
    by (simp add: snprintf_def)
  show ?thesis unfolding ksight_set_traced_pid_def write_attr_def Let_def b
    by (simp add: is_dir_def ask_defs ksight_path_def assms(3-5))
qed

section \<open>Witnesses\<close>

definition sysfs_text :: "call list \<Rightarrow> call \<Rightarrow> string option" where
  "sysfs_text h c =
     (if h \<noteq> [] \<and> last h = OS (Open (snprintf PATH_MAX (udmabuf_dir 0 @ ''/phys_addr'')))
      then Some (''0x'' @ print_hex8 0x70000000 @ [CHR 0x0A])
      else Some (print_nat 10 (unat (0x100000 :: u64)) @ [CHR 0x0A]))"

definition sysfs_env :: env where
  "sysfs_env = sample_env\<lparr>a_int := (\<lambda>h c. 3), a_text := sysfs_text\<rparr>"

lemma udmabuf_paths_differ:
  "snprintf PATH_MAX (udmabuf_dir 0 @ ''/size'') \<noteq> snprintf PATH_MAX (udmabuf_dir 0 @ ''/phys_addr'')"
  by (simp add: snprintf_def PATH_MAX_def udmabuf_dir_def print_int_def print_nat.simps digit_char_def)

theorem get_udmabuf_info_roundtrip_witness:
  "\<exists>s'. get_udmabuf_info sysfs_env 0 0 0 \<lparr>hist = []\<rparr> = Some ((0, 0x70000000, 0x100000), s')"
proof (rule get_udmabuf_info_roundtrip)
  fix h fd n
  show "a_text sysfs_env (h @ [OS (Open (snprintf PATH_MAX (udmabuf_dir 0 @ ''/phys_addr'')))]) (OS (Read fd n)) =
      Some (''0x'' @ print_hex8 0x70000000 @ [CHR 0x0A])"
    by (simp add: sysfs_env_def sysfs_text_def)
  show "a_text sysfs_env (h @ [OS (Open (snprintf PATH_MAX (udmabuf_dir 0 @ ''/size'')))]) (OS (Read fd n)) =
      Some (print_nat 10 (unat (0x100000 :: u64)) @ [CHR 0x0A])"
    using udmabuf_paths_differ by (simp add: sysfs_env_def sysfs_text_def)
qed (simp_all add: sysfs_env_def)

theorem ksight_set_traced_pid_writes_witness:
  "\<exists>s'. ksight_set_traced_pid sysfs_env 77 \<lparr>hist = []\<rparr> = Some (0, s') \<and>
     hist s' = [OS (Stat_isdir ''/sys/class/ksight/ksight''), OS (Open ''/sys/class/ksight/ksight/traced_pid''),
       OS (Write 3 (''77'' @ [CHR 0x0A])), OS (Close 3)]"
proof -
  have p: "print_int 77 = ''77''" by (simp add: print_int_def print_nat.simps digit_char_def)
  show ?thesis
    using ksight_set_traced_pid_writes [OF _ _ refl refl refl, of 77 sysfs_env "\<lparr>hist = []\<rparr>"]
    by (simp add: p sysfs_env_def)
qed

end
