(* ===== verification/Session.thy ===== *)
theory Session
  imports Config Buffers Sysfs CpuAffinity
begin

text \<open>
  Trace sessions (\<open>src/common.c\<close>): switching the trace on and off (\<open>enable_cs_trace\<close>,
  \<open>disable_cs_trace\<close> with its retry loop) and the life cycle \<open>init_trace\<close>, \<open>start_trace\<close>,
  \<open>stop_trace\<close>, \<open>fini_trace\<close>. The procedures of this file hold the trace mutex while they run, so
  they are modelled as sequential code; the only place where the main thread waits for the fetcher
  thread, the join in \<open>fini_trace\<close>, takes what that thread does as an argument.
\<close>

section \<open>Switching the trace on\<close>

text \<open>The sum is an \<open>int\<close> and overflows for the sixteen largest CPU numbers. That is undefined in C; the model has what the
  compiled code does, a sum modulo \<open>2 ^ 32\<close> that is read as a signed number.\<close>

definition get_trace_id :: "int \<Rightarrow> int" where
  "get_trace_id cpu = sint (0x10 + word_of_int cpu :: 32 word)"

text \<open>The two branches of \<open>enable_cs_trace\<close>: configuration and enabling for the first time, or the sinks only.\<close>

definition enable_first :: "env \<Rightarrow> int \<Rightarrow> 'z globals_scheme \<Rightarrow> (int \<times> 'z globals_scheme) option" where
  "enable_first E pid s = do {
     ((r, dv), s) \<leftarrow> configure_trace E (registration_verbose s) (board s) (Some (devices s)) (map_infos s)
                       (nat (range_count s)) pid s;
     let s = s\<lparr>devices := (case dv of Some d \<Rightarrow> d | None \<Rightarrow> devices s)\<rparr>;
     if r < 0 then Some (-1, s)
     else do {
       (r, s) \<leftarrow> enable_trace E (etr_ram_addr s) (etr_ram_size s) (registration_verbose s) (board s)
                   (Some (devices s)) s;
       if r < 0 then Some (-1, s) else Some (0, s\<lparr>is_first_trace := False\<rparr>)
     }
   }"

definition enable_again :: "env \<Rightarrow> 'z globals_scheme \<Rightarrow> (int \<times> 'z globals_scheme) option" where
  "enable_again E s = do {
     (r, s) \<leftarrow> enable_trace_sinks_only E (board s) (Some (devices s)) s;
     Some (if r < 0 then -1 else 0, s)
   }"

definition enable_cs_trace :: "env \<Rightarrow> int \<Rightarrow> 'z globals_scheme \<Rightarrow> (int \<times> 'z globals_scheme) option" where
  "enable_cs_trace E pid s = do {
     (ret, s) \<leftarrow> (if is_first_trace s then enable_first E pid s else enable_again E s);
     if ret < 0 then do {
       (_, s) \<leftarrow> cs_int E Cs_shutdown s;
       Some (ret, s)
     } else do {
       (_, s) \<leftarrow> (if export_config s then cs_int E Do_dump_config s else Some (0, s));
       Some (ret, s)
     }
   }"

section \<open>Switching the trace off\<close>

text \<open>A loop that tries an operation up to \<open>n\<close> times and waits and resets the error count after a failure.\<close>

fun retry ::
  "env \<Rightarrow> ('z world_scheme \<Rightarrow> (int \<times> 'z world_scheme) option) \<Rightarrow> nat \<Rightarrow> int \<Rightarrow> 'z world_scheme \<Rightarrow>
   (int \<times> 'z world_scheme) option" where
  "retry E op 0 ret s = Some (ret, s)"
| "retry E op (Suc n) ret s = do {
     (ret, s) \<leftarrow> op s;
     if \<not> ret < 0 then Some (ret, s)
     else do {
       (_, s) \<leftarrow> os_int E (Usleep TRACE_DISABLE_TRIAL_USLEEP) s;
       (_, s) \<leftarrow> cs_int E Cs_reset_error_count s;
       retry E op n ret s
     }
   }"

text \<open>The first value of \<open>ret\<close> is never returned, as there is at least one trial.\<close>

definition disable_cs_trace :: "env \<Rightarrow> bool \<Rightarrow> 'z globals_scheme \<Rightarrow> (int \<times> 'z globals_scheme) option" where
  "disable_cs_trace E disable_all s =
     retry E (\<lambda>t. if disable_all then disable_trace E (registration_verbose s) (board s) (Some (devices s)) t
                  else disable_trace_sinks_only E (Some (devices s)) t)
       TRACE_DISABLE_TRIAL 0 s"

section \<open>The life cycle\<close>

definition start_trace :: "env \<Rightarrow> int \<Rightarrow> bool \<Rightarrow> 'z globals_scheme \<Rightarrow> (int \<times> 'z globals_scheme) option" where
  "start_trace E pid use_pid_trace s = do {
     (ret, s) \<leftarrow> set_cpu_affinity E (trace_cpu s) pid s;
     if ret < 0 then Some (ret, s)
     else do {
       (_, s) \<leftarrow> alloc_trace_buf E s;
       (_, s) \<leftarrow> (if ksight_on s then alloc_ksight_buf E s else Some (0, s));
       let s = s\<lparr>child_pid := pid\<rparr>;
       (ret, s) \<leftarrow> enable_cs_trace E (if use_pid_trace then pid else 0) s;
       if ret < 0 then Some (ret, s) else Some (ret, set_trace_state running_state s)
     }
   }"

definition stop_trace :: "env \<Rightarrow> bool \<Rightarrow> 'z globals_scheme \<Rightarrow> (int \<times> 'z globals_scheme) option" where
  "stop_trace E disable_all s = do {
     (ret, s) \<leftarrow> disable_cs_trace E disable_all s;
     if ret < 0 then Some (ret, s) else Some (ret, set_trace_state ready_state s)
   }"

text \<open>The choice of the CPU in \<open>init_trace\<close>. In the inner condition the comparison binds stronger than the
  assignment, so \<open>preferred_cpu\<close> becomes its truth value.\<close>

definition choose_cpu :: "env \<Rightarrow> int \<Rightarrow> 'z globals_scheme \<Rightarrow> (unit \<times> 'z globals_scheme) option" where
  "choose_cpu E parent_pid s =
     (if trace_cpu s < 0 then do {
        (preferred_cpu, s) \<leftarrow> get_preferred_cpu E parent_pid s;
        (preferred_cpu, s) \<leftarrow> (if preferred_cpu < 0 then do {
             (r, s) \<leftarrow> find_free_cpu E s;
             Some (if r < 0 then 1 else 0, s)
           } else Some (preferred_cpu, s));
        Some ((), s\<lparr>trace_cpu := (if preferred_cpu \<ge> 0 then preferred_cpu else DEFAULT_TRACE_CPU)\<rparr>)
      } else Some ((), s))"

definition init_udmabuf :: "env \<Rightarrow> 'z globals_scheme \<Rightarrow> (int \<times> 'z globals_scheme) option" where
  "init_udmabuf E s = do {
     ((r, addr, sz), s) \<leftarrow> get_udmabuf_info E (udmabuf_num s) (etr_ram_addr s) (etr_ram_size s) s;
     Some (r, s\<lparr>etr_ram_addr := addr, etr_ram_size := sz\<rparr>)
   }"

definition init_ksight :: "env \<Rightarrow> 'z globals_scheme \<Rightarrow> (int \<times> 'z globals_scheme) option" where
  "init_ksight E s =
     (if ksight_on s then do {
        ((r, addr), s) \<leftarrow> get_ksight_info E (ksight_ram_addr s) s;
        Some (r, s\<lparr>ksight_ram_addr := addr\<rparr>)
      } else Some (0, s))"

definition init_maps :: "env \<Rightarrow> map_locals \<Rightarrow> int \<Rightarrow> 'z globals_scheme \<Rightarrow> (int \<times> 'z globals_scheme) option" where
  "init_maps E v pid s = do {
     ((n, mi), s) \<leftarrow> setup_map_info E v pid (map_infos s) (int RANGE_MAX) s;
     Some (n, s\<lparr>range_count := n, map_infos := mi\<rparr>)
   }"

definition init_board :: "env \<Rightarrow> 'z globals_scheme \<Rightarrow> (int \<times> 'z globals_scheme) option" where
  "init_board E s = do {
     ((r, b, dv), s) \<leftarrow> ask (a_board E) (CS (Setup_named_board (board_name s))) s;
     Some (r, s\<lparr>board := b, devices := dv\<rparr>)
   }"

text \<open>The creation of the fetcher thread, the trace identifier and the ready state. Without a fetcher \<open>ret\<close> still is -1.\<close>

definition init_ready :: "env \<Rightarrow> 'z globals_scheme \<Rightarrow> (int \<times> 'z globals_scheme) option" where
  "init_ready E s = do {
     (ret, s) \<leftarrow> (if fetcher_on s then os_int E Pthread_create s else Some (-1, s));
     if fetcher_on s \<and> ret \<noteq> 0 then Some (ret, s)
     else do {
       let s = s\<lparr>trace_id := get_trace_id (trace_cpu s)\<rparr>;
       if trace_id s < 0 then Some (ret, s)
       else Some (0, set_trace_state ready_state s)
     }
   }"

text \<open>The steps of \<open>init_trace\<close> up to the label \<open>exit\<close>, and then the shutdown if one of them failed. \<open>v\<close> is what
  the uninitialised locals of \<open>setup_map_info\<close> hold.\<close>

definition init_steps :: "env \<Rightarrow> map_locals \<Rightarrow> int \<Rightarrow> int \<Rightarrow> 'z globals_scheme \<Rightarrow> (int \<times> 'z globals_scheme) option" where
  "init_steps E v parent_pid pid s = do {
     (_, s) \<leftarrow> choose_cpu E parent_pid s;
     (r, s) \<leftarrow> init_udmabuf E s;
     if r < 0 then Some (-1, s) else do {
     (r, s) \<leftarrow> init_ksight E s;
     if r < 0 then Some (-1, s) else do {
     (r, s) \<leftarrow> init_maps E v pid s;
     if r < 0 then Some (-1, s) else do {
     (r, s) \<leftarrow> init_board E s;
     if r < 0 then Some (-1, s) else do {
     init_ready E s
     }}}}
   }"

definition init_trace :: "env \<Rightarrow> map_locals \<Rightarrow> int \<Rightarrow> int \<Rightarrow> 'z globals_scheme \<Rightarrow> (int \<times> 'z globals_scheme) option" where
  "init_trace E v parent_pid pid s = do {
     (ret, s) \<leftarrow> init_steps E v parent_pid pid s;
     if ret \<noteq> 0 then do {
       (_, s) \<leftarrow> cs_int E Cs_shutdown s;
       Some (ret, s)
     } else Some (ret, s)
   }"

text \<open>The second part of \<open>fini_trace\<close>, after the last fetch.\<close>

definition fini_export :: "env \<Rightarrow> 'z globals_scheme \<Rightarrow> (unit \<times> 'z globals_scheme) option" where
  "fini_export E s = do {
     (_, s) \<leftarrow> export_trace E DEFAULT_TRACE_NAME s;
     (_, s) \<leftarrow> (if ksight_on s then do {
          (_, s) \<leftarrow> fetch_ksight_events E s;
          (_, s) \<leftarrow> export_ksight E DEFAULT_KSIGHT_NAME s;
          free_ksight_buf E s
        } else Some ((), s));
     (_, s) \<leftarrow> (if registration_verbose s > 0
                then os_int E (Fputs_stderr (dump_map_info (map_infos s) (range_count s))) s else Some (0, s));
     (_, s) \<leftarrow> free_trace_buf E s;
     (_, s) \<leftarrow> cs_int E Cs_shutdown s;
     Some ((), s)
   }"

text \<open>\<open>fetcher\<close> is the effect of the fetcher thread from the final event until it ends, \<open>None\<close> if it never ends.\<close>

definition fini_trace ::
  "env \<Rightarrow> ('z globals_scheme \<Rightarrow> 'z globals_scheme option) \<Rightarrow> 'z globals_scheme \<Rightarrow> (unit \<times> 'z globals_scheme) option" where
  "fini_trace E fetcher s = do {
     (_, s) \<leftarrow> (if fetcher_on s then do {
          s \<leftarrow> fetcher (set_trace_state fini_state s);
          os_int E Pthread_join s
        } else fetch_trace E s);
     fini_export E s
   }"


section \<open>The retry loop\<close>

text \<open>\<open>failed_attempts E op k s t\<close>: from \<open>s\<close> the operation has failed \<open>k\<close> times in a row, each time followed by the pause
  and the reset of the error count, which leads to \<open>t\<close>.\<close>

inductive failed_attempts ::
  "('z world_scheme \<Rightarrow> (int \<times> 'z world_scheme) option) \<Rightarrow> nat \<Rightarrow> 'z world_scheme \<Rightarrow> 'z world_scheme \<Rightarrow> bool"
  for op where
  none: "failed_attempts op 0 s s"
| more: "op s = Some (r, s1) \<Longrightarrow> r < 0 \<Longrightarrow>
    failed_attempts op n (s1\<lparr>hist := hist s1 @ [OS (Usleep TRACE_DISABLE_TRIAL_USLEEP), CS Cs_reset_error_count]\<rparr>) t \<Longrightarrow>
    failed_attempts op (Suc n) s t"

inductive_cases failed_attempts_SucE: "failed_attempts op (Suc n) s t"

lemma failed_attempts_appends:
  assumes "\<And>s. appends s (op s)"
  shows "failed_attempts op n s t \<Longrightarrow> \<exists>cs. t = s\<lparr>hist := hist s @ cs\<rparr>"
proof (induction rule: failed_attempts.induct)
  case (none s)
  then show ?case by (auto intro: exI [of _ "[]"])
next
  case (more s r s1 n t)
  from appendsE [OF assms more(1)] obtain cs where "s1 = s\<lparr>hist := hist s @ cs\<rparr>" .
  with more.IH show ?case by auto
qed

context csal_total_operation
begin

lemma retry_outcome:
  "returns (retry E (op E) (Suc n) ret s) (\<lambda>r s'.
     (\<exists>k \<le> n. \<exists>t. failed_attempts (op E) k s t \<and> op E t = Some (0, s') \<and> r = 0) \<or>
     (failed_attempts (op E) (Suc n) s s' \<and> r = -1))"
proof (induction n arbitrary: ret s)
  case 0
  obtain r s1 where "op E s = Some (r, s1)" "r = 0 \<or> r = -1" by (rule returnsE [OF op_returns])
  then show ?case
    by (auto simp: ask_defs intro: failed_attempts.none failed_attempts.more [OF _ _ failed_attempts.none])
next
  case (Suc n)
  obtain r s1 where run: "op E s = Some (r, s1)" "r = 0 \<or> r = -1" by (rule returnsE [OF op_returns])
  show ?case
  proof (cases "r = 0")
    case True
    with run show ?thesis by (auto intro!: exI [of _ 0] exI [of _ s] failed_attempts.none)
  next
    case False
    with run have r: "op E s = Some (-1, s1)" by simp
    let ?s = "s1\<lparr>hist := hist s1 @ [OS (Usleep TRACE_DISABLE_TRIAL_USLEEP), CS Cs_reset_error_count]\<rparr>"
    have step: "failed_attempts (op E) (Suc k) s t" if "failed_attempts (op E) k ?s t" for k t
      by (rule failed_attempts.more [OF r _ that]) simp
    have "returns (retry E (op E) (Suc n) (-1) ?s) (\<lambda>r s'.
       (\<exists>k \<le> Suc n. \<exists>t. failed_attempts (op E) k s t \<and> op E t = Some (0, s') \<and> r = 0) \<or>
       (failed_attempts (op E) (Suc (Suc n)) s s' \<and> r = -1))"
      by (rule returns_mono [OF Suc.IH]) (use step in \<open>meson Suc_le_mono\<close>)
    with r show ?thesis by (subst retry.simps) (simp add: ask_defs del: retry.simps)
  qed
qed

end

section \<open>Frames\<close>

lemma appends_alloc_cpu_set: "appends s (alloc_cpu_set E s)"
  unfolding alloc_cpu_set_def by (intro appends_rules)

lemma appends_set_cpu_affinity: "appends s (set_cpu_affinity E cpu pid s)"
  unfolding set_cpu_affinity_def by (intro appends_rules appends_alloc_cpu_set)

lemma appends_enable_trace: "appends s (enable_trace E addr sz v b (Some dv) s)"
  by (cases b) (simp_all add: et.op_appends, simp add: enable_trace_def appends_Some)

lemma appends_disable_trace_none: "disable_trace E v None dv s = Some (-1, s)"
  by (simp add: disable_trace_def)

text \<open>What \<open>enable_cs_trace\<close> may change.\<close>

lemma enable_first_frame:
  assumes "enable_first E pid s = Some (r, s')"
  shows "\<exists>cs dv. s' = s\<lparr>hist := hist s @ cs, devices := dv, is_first_trace := (r \<noteq> 0 \<and> is_first_trace s)\<rparr> \<and> (r = 0 \<or> r = -1)"
proof -
  let ?c = "configure_trace E (registration_verbose s) (board s) (Some (devices s)) (map_infos s) (nat (range_count s)) pid s"
  obtain r1 dv s1 where c: "?c = Some ((r1, dv), s1)"
    using assms by (cases ?c) (auto simp: enable_first_def)
  obtain cs where s1: "s1 = s\<lparr>hist := hist s @ cs\<rparr>"
    by (rule appendsE [OF appends_configure_trace c])
  let ?d = "case dv of Some d \<Rightarrow> d | None \<Rightarrow> devices s1"
  let ?s = "s1\<lparr>devices := ?d\<rparr>"
  show ?thesis
  proof (cases "r1 < 0")
    case True
    then have "s' = s\<lparr>hist := hist s @ cs, devices := ?d, is_first_trace := is_first_trace s\<rparr>" "r = -1"
      using assms c s1 by (auto simp: enable_first_def Let_def)
    then show ?thesis by auto
  next
    case False
    let ?e = "enable_trace E (etr_ram_addr ?s) (etr_ram_size ?s) (registration_verbose ?s) (board ?s) (Some (devices ?s)) ?s"
    obtain r2 s2 where e: "?e = Some (r2, s2)"
      using assms c False by (cases ?e) (auto simp: enable_first_def Let_def)
    obtain cs2 where s2: "s2 = ?s\<lparr>hist := hist ?s @ cs2\<rparr>"
      by (rule appendsE [OF appends_enable_trace e])
    have "s' = s\<lparr>hist := hist s @ (cs @ cs2), devices := ?d, is_first_trace := (r \<noteq> 0 \<and> is_first_trace s)\<rparr>" "r = 0 \<or> r = -1"
      using assms c e s1 s2 False by (auto simp: enable_first_def Let_def split: if_splits)
    then show ?thesis by blast
  qed
qed

lemma enable_again_frame:
  assumes "enable_again E s = Some (r, s')"
  shows "\<exists>cs. s' = s\<lparr>hist := hist s @ cs\<rparr> \<and> (r = 0 \<or> r = -1) \<and>
    (\<forall>c \<in> set cs. \<exists>d m. c \<in> {CS (Cs_sink_enable d), CS (Cs_sink_etf_setup d m), CS (Cs_tmc_hw_fifo_enable d m),
        CS Cs_checkpoint, CS Cs_error_count})"
proof -
  let ?sc = "enable_sinks_script E (devices s) @ [(CS Cs_checkpoint, any_result), (CS Cs_error_count, no_errors)]"
  obtain cs where cs: "snd (run_script E ?sc (hist s)) = hist s @ cs" "prefix cs (map fst ?sc)"
    using run_script_extends by blast
  have "\<exists>d m. c \<in> {CS (Cs_sink_enable d), CS (Cs_sink_etf_setup d m), CS (Cs_tmc_hw_fifo_enable d m),
        CS Cs_checkpoint, CS Cs_error_count}" if "c \<in> set (map fst ?sc)" for c
    using that by (auto simp: enable_sinks_script_def tpiu_script_def etf_script_def)
  with set_mono_prefix [OF cs(2)] have "\<forall>c \<in> set cs. \<exists>d m. c \<in> {CS (Cs_sink_enable d), CS (Cs_sink_etf_setup d m),
      CS (Cs_tmc_hw_fifo_enable d m), CS Cs_checkpoint, CS Cs_error_count}" by blast
  moreover have "s' = s\<lparr>hist := hist s @ cs\<rparr> \<and> (r = 0 \<or> r = -1)"
    using assms cs(1)
    by (auto simp: enable_again_def enable_trace_sinks_only_script script_result_def split: prod.splits if_splits)
  ultimately show ?thesis by blast
qed

lemma enable_cs_trace_frame:
  assumes "enable_cs_trace E pid s = Some (r, s')"
  shows "\<exists>cs dv. s' = s\<lparr>hist := hist s @ cs, devices := dv, is_first_trace := (r \<noteq> 0 \<and> is_first_trace s)\<rparr> \<and>
     (r = 0 \<or> r = -1 \<and> last cs = CS Cs_shutdown \<and> cs \<noteq> []) \<and> (\<not> is_first_trace s \<longrightarrow> dv = devices s)"
proof -
  let ?m = "if is_first_trace s then enable_first E pid s else enable_again E s"
  obtain r1 s1 where m: "?m = Some (r1, s1)" using assms by (cases ?m) (auto simp: enable_cs_trace_def)
  have "\<exists>cs dv. s1 = s\<lparr>hist := hist s @ cs, devices := dv, is_first_trace := (r1 \<noteq> 0 \<and> is_first_trace s)\<rparr> \<and>
      (r1 = 0 \<or> r1 = -1) \<and> (\<not> is_first_trace s \<longrightarrow> dv = devices s)"
  proof (cases "is_first_trace s")
    case True
    then show ?thesis using m enable_first_frame [of E pid s r1 s1] by auto
  next
    case False
    then obtain cs where "s1 = s\<lparr>hist := hist s @ cs\<rparr>" "r1 = 0 \<or> r1 = -1"
      using m enable_again_frame [of E s r1 s1] by auto
    moreover from False have "s = s\<lparr>is_first_trace := False\<rparr>" by simp
    ultimately show ?thesis using False by (intro exI [of _ cs] exI [of _ "devices s"]) simp
  qed
  then obtain cs dv where s1: "s1 = s\<lparr>hist := hist s @ cs, devices := dv, is_first_trace := (r1 \<noteq> 0 \<and> is_first_trace s)\<rparr>"
    and r1: "r1 = 0 \<or> r1 = -1" and dv: "\<not> is_first_trace s \<longrightarrow> dv = devices s" by blast
  have run: "enable_cs_trace E pid s = (if r1 < 0 then Some (r1, s1\<lparr>hist := hist s1 @ [CS Cs_shutdown]\<rparr>)
      else if export_config s then Some (r1, s1\<lparr>hist := hist s1 @ [CS Do_dump_config]\<rparr>) else Some (r1, s1))"
    using m s1 by (auto simp: enable_cs_trace_def ask_defs)
  show ?thesis
  proof (cases "r1 = 0")
    case False
    with r1 run assms s1 have "r = -1" "s' = s\<lparr>hist := hist s @ (cs @ [CS Cs_shutdown]), devices := dv,
        is_first_trace := (r \<noteq> 0 \<and> is_first_trace s)\<rparr>" by auto
    then show ?thesis using dv by (intro exI [of _ "cs @ [CS Cs_shutdown]"] exI [of _ dv]) simp
  next
    case True
    with run assms s1 have "r = 0" "s' = s\<lparr>hist := hist s @ (cs @ (if export_config s then [CS Do_dump_config] else [])),
        devices := dv, is_first_trace := (r \<noteq> 0 \<and> is_first_trace s)\<rparr>" by (auto split: if_splits)
    then show ?thesis using dv by blast
  qed
qed

lemma appends_option_bind: "(\<And>x. m = Some x \<Longrightarrow> appends s (f x)) \<Longrightarrow> appends s (m \<bind> f)"
  by (cases m) (simp_all add: appends_None)

lemma appends_case_prod:
  "(\<And>a b. p = (a, b) \<Longrightarrow> appends s (f a b)) \<Longrightarrow> appends s (case p of (a, b) \<Rightarrow> f a b)"
  by (cases p) simp

lemma appends_find_free_cpu: "appends s (find_free_cpu E s)"
  unfolding find_free_cpu_def by (intro appends_rules appends_scan_procs appends_option_bind)

lemma appends_set_core_cpus: "appends s (set_core_cpus E cpu S n s)"
  unfolding set_core_cpus_def by (intro appends_rules)

lemma appends_collect_siblings: "appends s (collect_siblings E is n S m C s)"
proof (induction "is" arbitrary: C s)
  case Nil
  then show ?case by (simp add: appends_Some)
next
  case (Cons i ids)
  show ?case unfolding collect_siblings.simps by (intro appends_rules appends_set_core_cpus Cons)
qed

lemma appends_get_preferred_cpu: "appends s (get_preferred_cpu E pid s)"
  unfolding get_preferred_cpu_def by (intro appends_rules appends_alloc_cpu_set appends_collect_siblings)

lemma appends_is_dir: "appends s (is_dir E p s)"
  unfolding is_dir_def by (intro appends_rules)

lemma appends_read_attr: "appends s (read_attr E p scan old s)"
  unfolding read_attr_def by (intro appends_rules appends_option_bind)

lemma appends_get_udmabuf_info: "appends s (get_udmabuf_info E k addr sz s)"
  unfolding get_udmabuf_info_def by (intro appends_rules appends_is_dir appends_read_attr)

lemma appends_get_ksight_info: "appends s (get_ksight_info E addr s)"
  unfolding get_ksight_info_def by (intro appends_rules appends_is_dir appends_read_attr)

lemma appends_map_regions: "appends s (map_regions E ids mi s)"
proof (induction ids arbitrary: mi s)
  case Nil
  then show ?case by (simp add: appends_Some)
next
  case (Cons i ids)
  show ?case unfolding map_regions.simps by (intro appends_rules Cons)
qed

lemma appends_setup_map_info: "appends s (setup_map_info E v pid mi n s)"
  unfolding setup_map_info_def by (intro appends_rules appends_case_prod appends_map_regions)

text \<open>The identifier, in range and beyond.\<close>

lemma get_trace_id_cases:
  assumes "0 \<le> cpu" and "cpu < 2 ^ 31"
  shows "get_trace_id cpu = (if cpu < 2 ^ 31 - 16 then 0x10 + cpu else 0x10 + cpu - 2 ^ 32)"
proof -
  have "(0x10 + word_of_int cpu :: 32 word) = word_of_int (0x10 + cpu)" by simp
  then have "get_trace_id cpu = signed_take_bit 31 (0x10 + cpu)" by (simp only: get_trace_id_def sint_sbintrunc') simp
  also have "\<dots> = (0x10 + cpu + 2 ^ 31) mod 2 ^ 32 - 2 ^ 31" by (simp add: signed_take_bit_eq_take_bit_shift take_bit_eq_mod)
  also have "\<dots> = (if cpu < 2 ^ 31 - 16 then 0x10 + cpu else 0x10 + cpu - 2 ^ 32)"
    using assms mod_pos_pos_trivial [of "0x10 + cpu + 2 ^ 31" "2 ^ 32"] mod_pos_pos_trivial [of "0x10 + cpu + 2 ^ 31 - 2 ^ 32" "2 ^ 32"]
      minus_mod_self2 [of "0x10 + cpu + 2 ^ 31" "2 ^ 32"] by auto
  finally show ?thesis .
qed

text \<open>The number of processors is an \<open>int\<close>, too.\<close>

definition nprocs_contract :: "env \<Rightarrow> bool" where
  "nprocs_contract E \<longleftrightarrow> (\<forall>h. a_int E h (OS Get_nprocs) < 2 ^ 31)"

lemma get_preferred_cpu_int:
  assumes "nprocs_contract E"
  shows "ensures (get_preferred_cpu E p s) (\<lambda>r s'. r < 2 ^ 31)"
proof -
  have trivial: "ensures m (\<lambda>r s. True)" for m :: "('b \<times> 'a world_scheme) option" by (simp add: ensures_def)
  have nprocs: "ensures (os_int E Get_nprocs t) (\<lambda>n t'. n < 2 ^ 31)" for t :: "'a world_scheme"
    using assms by (simp add: ask_defs nprocs_contract_def)
  have found: "(case find P [0..<nat n] of None \<Rightarrow> -1 | Some i \<Rightarrow> int i) < 2 ^ 31" if "n < 2 ^ 31" for P n
    using that by (auto simp: find_upt_Some split: option.split)
  have option: "(x = None \<Longrightarrow> ensures m Q) \<Longrightarrow> (\<And>a. x = Some a \<Longrightarrow> ensures (f a) Q) \<Longrightarrow>
      ensures (case x of None \<Rightarrow> m | Some a \<Rightarrow> f a) Q" for x :: "'b option" and m :: "(int \<times> 'a world_scheme) option" and f Q
    by (cases x) auto
  show ?thesis unfolding get_preferred_cpu_def
    by (rule ensures_bind [OF trivial], rule option, simp, rule ensures_bind [OF trivial], rule option, simp,
        rule ensures_bind [OF nprocs], rule ensures_bind [OF trivial], rule option, simp, rule ensures_bind [OF trivial])
      (auto simp: found [simplified] split: prod.split)
qed

text \<open>The part of the state that the initialisation steps leave alone.\<close>

definition settings :: "'z globals_scheme \<Rightarrow>
  (trace_state_t \<times> trace_event_t) \<times> (growbuf \<times> growbuf) \<times> bool \<times> bool \<times> bool \<times> bool \<times> int \<times> int" where
  "settings s = ((trace_state s, trace_event s), (trace_buf s, ksight_buf s), fetcher_on s, ksight_on s, export_config s,
     is_first_trace s, registration_verbose s, udmabuf_num s)"

lemma settings_hist [simp]: "settings (s\<lparr>hist := h\<rparr>) = settings s"
  by (simp add: settings_def)

lemma settings_updates [simp]:
  "settings (s\<lparr>trace_cpu := a\<rparr>) = settings s" "settings (s\<lparr>etr_ram_addr := b\<rparr>) = settings s"
  "settings (s\<lparr>etr_ram_size := b\<rparr>) = settings s" "settings (s\<lparr>ksight_ram_addr := b\<rparr>) = settings s"
  "settings (s\<lparr>range_count := a\<rparr>) = settings s" "settings (s\<lparr>map_infos := c\<rparr>) = settings s"
  "settings (s\<lparr>board := d\<rparr>) = settings s" "settings (s\<lparr>devices := e\<rparr>) = settings s" "settings (s\<lparr>trace_id := a\<rparr>) = settings s"
  by (simp_all add: settings_def)

lemma choose_cpu_frame:
  "ensures (choose_cpu E p s) (\<lambda>u s'. settings s' = settings s \<and> 0 \<le> trace_cpu s' \<and>
     (0 \<le> trace_cpu s \<longrightarrow> trace_cpu s' = trace_cpu s) \<and> (nprocs_contract E \<and> trace_cpu s < 2 ^ 31 \<longrightarrow> trace_cpu s' < 2 ^ 31))"
proof (cases "trace_cpu s < 0")
  case True
  have pref: "ensures (get_preferred_cpu E p s) (\<lambda>r s'. settings s' = settings s \<and> (nprocs_contract E \<longrightarrow> r < 2 ^ 31))"
  proof (intro ensuresI conjI impI)
    fix r s' assume g: "get_preferred_cpu E p s = Some (r, s')"
    show "settings s' = settings s" by (rule appendsE [OF appends_get_preferred_cpu g]) simp
    show "r < 2 ^ 31" if "nprocs_contract E" by (rule ensuresD [OF get_preferred_cpu_int [OF that] g])
  qed
  have free: "ensures (find_free_cpu E t) (\<lambda>r s'. settings s' = settings t)" for t :: "'a globals_scheme"
    by (auto intro!: ensuresI elim!: appendsE [OF appends_find_free_cpu])
  show ?thesis
    unfolding choose_cpu_def if_P [OF True]
    by (insert True, rule ensures_bind [OF pref],
        rule ensures_bind [where P = "\<lambda>r s'. settings s' = settings s \<and> (nprocs_contract E \<longrightarrow> r < 2 ^ 31)"])
      (auto intro!: ensures_bind [OF free] simp: DEFAULT_TRACE_CPU_def)
qed (simp add: choose_cpu_def)

lemma init_udmabuf_frame:
  "ensures (init_udmabuf E s) (\<lambda>r s'. settings s' = settings s \<and> trace_cpu s' = trace_cpu s)"
  by (auto simp: ensures_def init_udmabuf_def bind_eq_Some_conv elim!: appendsE [OF appends_get_udmabuf_info])

lemma init_ksight_frame:
  "ensures (init_ksight E s) (\<lambda>r s'. settings s' = settings s \<and> trace_cpu s' = trace_cpu s)"
  by (auto simp: ensures_def init_ksight_def bind_eq_Some_conv split: if_splits elim!: appendsE [OF appends_get_ksight_info])

lemma init_maps_frame:
  "ensures (init_maps E v pid s) (\<lambda>r s'. settings s' = settings s \<and> trace_cpu s' = trace_cpu s \<and>
     r = range_count s' \<and> r \<le> 1)"
proof (rule ensuresI)
  fix r s' assume "init_maps E v pid s = Some (r, s')"
  then obtain mi s1 where m: "setup_map_info E v pid (map_infos s) (int RANGE_MAX) s = Some ((r, mi), s1)"
    and s': "s' = s1\<lparr>range_count := r, map_infos := mi\<rparr>"
    by (auto simp: init_maps_def bind_eq_Some_conv)
  obtain cs where "s1 = s\<lparr>hist := hist s @ cs\<rparr>" by (rule appendsE [OF appends_setup_map_info m])
  with s' setup_map_info_range [OF m]
  show "settings s' = settings s \<and> trace_cpu s' = trace_cpu s \<and> r = range_count s' \<and> r \<le> 1"
    by (auto simp: RANGE_MAX_def)
qed

lemma init_board_frame:
  "ensures (init_board E s) (\<lambda>r s'. settings s' = settings s \<and> trace_cpu s' = trace_cpu s \<and> range_count s' = range_count s)"
  by (auto simp: ensures_def init_board_def ask_def split: prod.splits)

text \<open>The state that a successful initialisation reaches. If the identifier overflows, \<open>init_trace\<close> leaves through the exit for errors,
  but returns 0 all the same when the creation of the fetcher thread has set \<open>ret\<close> to 0.\<close>

definition initialised :: "'z globals_scheme \<Rightarrow> 'z globals_scheme \<Rightarrow> bool" where
  "initialised s s' \<longleftrightarrow> settings (s'\<lparr>trace_state := trace_state s, trace_event := trace_event s\<rparr>) = settings s \<and>
     trace_id s' = get_trace_id (trace_cpu s') \<and> 0 \<le> trace_cpu s' \<and> 0 \<le> range_count s' \<and> range_count s' \<le> 1 \<and>
     (if 0 \<le> trace_id s' then trace_state s' = ready_state
      else fetcher_on s \<and> trace_state s' = trace_state s \<and> trace_event s' = trace_event s)"

lemma init_ready_outcome:
  assumes "0 \<le> trace_cpu s" and "0 \<le> range_count s" and "range_count s \<le> 1" and "settings s = settings s0"
  shows "ensures (init_ready E s) (\<lambda>r s'. trace_cpu s' = trace_cpu s \<and> (if r = 0 then initialised s0 s' else settings s' = settings s0))"
proof -
  have ready: "initialised s0 (set_trace_state ready_state (s\<lparr>hist := h, trace_id := get_trace_id (trace_cpu s)\<rparr>))"
    if "\<not> get_trace_id (trace_cpu s) < 0" for h
    using assms that by (simp add: initialised_def settings_def set_trace_state_def signal_trace_event_def Let_def)
  have lost: "initialised s0 (s\<lparr>hist := h, trace_id := get_trace_id (trace_cpu s)\<rparr>)"
    if "get_trace_id (trace_cpu s) < 0" "fetcher_on s" for h
    using assms that by (simp add: initialised_def settings_def)
  have cpu: "trace_cpu (set_trace_state st t) = trace_cpu t" for st and t :: "'a globals_scheme"
    by (simp add: set_trace_state_def signal_trace_event_def Let_def)
  show ?thesis
    using assms(4) ready [of "hist s"] ready lost
    by (cases "fetcher_on s") (simp_all add: init_ready_def ask_defs Let_def cpu)
qed

lemma init_steps_outcome:
  "ensures (init_steps E v ppid pid s) (\<lambda>r s'. (0 \<le> trace_cpu s \<longrightarrow> trace_cpu s' = trace_cpu s) \<and>
     (nprocs_contract E \<and> trace_cpu s < 2 ^ 31 \<longrightarrow> trace_cpu s' < 2 ^ 31) \<and>
     (if r = 0 then initialised s s' else settings s' = settings s))"
  unfolding init_steps_def
  by (rule ensures_bind [OF choose_cpu_frame], rule ensures_bind [OF init_udmabuf_frame], rule ensures_if, simp,
    rule ensures_bind [OF init_ksight_frame], rule ensures_if, simp,
    rule ensures_bind [OF init_maps_frame], rule ensures_if, simp,
    rule ensures_bind [OF init_board_frame], rule ensures_if, simp,
    rule ensures_mono [OF init_ready_outcome [where ?s0.0 = s]]) auto

section \<open>Buffers in a session\<close>

lemma set_trace_state_other [simp]:
  "trace_buf (set_trace_state st s) = trace_buf s" "child_pid (set_trace_state st s) = child_pid s"
  "is_first_trace (set_trace_state st s) = is_first_trace s" "devices (set_trace_state st s) = devices s"
  "ksight_buf (set_trace_state st s) = ksight_buf s" "fetcher_on (set_trace_state st s) = fetcher_on s"
  "ksight_on (set_trace_state st s) = ksight_on s" "board (set_trace_state st s) = board s"
  "registration_verbose (set_trace_state st s) = registration_verbose s"
  by (simp_all add: set_trace_state_def signal_trace_event_def Let_def)

lemma alloc_trace_buf_eq:
  "alloc_trace_buf E s = (let c = OS (Mmap DEFAULT_TRACE_SIZE); rb = alloc_buf (a_u64 E (hist s) c) (trace_buf s)
     in Some (fst rb, s\<lparr>hist := hist s @ [c], trace_buf := snd rb\<rparr>))"
  by (simp add: alloc_trace_buf_def ask_def Let_def case_prod_beta)

text \<open>What \<open>start_trace\<close> has changed when it calls \<open>enable_cs_trace\<close>.\<close>

definition allocated :: "env \<Rightarrow> 'z globals_scheme \<Rightarrow> 'z globals_scheme \<Rightarrow> bool" where
  "allocated E s t \<longleftrightarrow>
     (\<exists>h. trace_buf t = snd (alloc_buf (a_u64 E h (OS (Mmap DEFAULT_TRACE_SIZE))) (trace_buf s))) \<and>
     trace_state t = trace_state s \<and> trace_event t = trace_event s \<and> fetcher_on t = fetcher_on s \<and> ksight_on t = ksight_on s \<and>
     registration_verbose t = registration_verbose s \<and> board t = board s"

text \<open>The outcome of \<open>start_trace\<close>: a failure leaves the state machine alone; a success has reached the running state.\<close>

definition started :: "env \<Rightarrow> int \<Rightarrow> 'z globals_scheme \<Rightarrow> int \<Rightarrow> 'z globals_scheme \<Rightarrow> bool" where
  "started E pid s r s' \<longleftrightarrow> (if r < 0 then trace_state s' = trace_state s \<and> trace_event s' = trace_event s
     else r = 0 \<and> trace_state s' = running_state \<and> child_pid s' = pid \<and> \<not> is_first_trace s' \<and>
       (\<exists>h. trace_buf s' = snd (alloc_buf (a_u64 E h (OS (Mmap DEFAULT_TRACE_SIZE))) (trace_buf s))) \<and>
       fetcher_on s' = fetcher_on s \<and> ksight_on s' = ksight_on s \<and>
       registration_verbose s' = registration_verbose s \<and> board s' = board s)"

lemma ensures_set_cpu_affinity:
  "ensures (set_cpu_affinity E cpu pid s) (\<lambda>r s1. \<exists>h. s1 = s\<lparr>hist := h\<rparr>)"
  by (auto intro!: ensuresI elim!: appendsE [OF appends_set_cpu_affinity])

lemma ensures_alloc:
  "s1 = s\<lparr>hist := h\<rparr> \<Longrightarrow> ensures (alloc_trace_buf E s1) (\<lambda>r t. allocated E s t)"
  by (auto simp: alloc_trace_buf_eq Let_def allocated_def)

lemma ensures_alloc_ksight:
  assumes "allocated E s t"
  shows "ensures (if b then alloc_ksight_buf E t else Some (0, t)) (\<lambda>r t. allocated E s t)"
  using assms by (auto simp: allocated_def alloc_ksight_buf_def ask_def Let_def case_prod_beta)

lemma ensures_enable:
  assumes "allocated E s t"
  shows "ensures (enable_cs_trace E p (t\<lparr>child_pid := pid\<rparr>)) (\<lambda>r t'. started E pid s r (if r < 0 then t' else set_trace_state running_state t'))"
proof (rule ensuresI)
  fix r t' assume "enable_cs_trace E p (t\<lparr>child_pid := pid\<rparr>) = Some (r, t')"
  from enable_cs_trace_frame [OF this] obtain cs dv where
    "t' = t\<lparr>child_pid := pid, hist := hist t @ cs, devices := dv, is_first_trace := (r \<noteq> 0 \<and> is_first_trace t)\<rparr>"
    and "r = 0 \<or> r = -1" by auto
  with assms show "started E pid s r (if r < 0 then t' else set_trace_state running_state t')"
    by (auto simp: started_def allocated_def)
qed

lemma start_trace_started: "ensures (start_trace E pid use s) (\<lambda>r s'. started E pid s r s')"
  unfolding start_trace_def
proof (rule ensures_bind [OF ensures_set_cpu_affinity], rule ensures_if)
  fix ret s1 assume "\<exists>h. s1 = s\<lparr>hist := h\<rparr>" and "ret < (0 :: int)"
  then show "ensures (Some (ret, s1)) (started E pid s)" by (auto simp: started_def)
next
  fix ret s1 assume "\<exists>h. s1 = s\<lparr>hist := h\<rparr>"
  then obtain h where "s1 = s\<lparr>hist := h\<rparr>" ..
  from ensures_alloc [OF this]
  show "ensures (do {
       (_, s) \<leftarrow> alloc_trace_buf E s1;
       (_, s) \<leftarrow> (if ksight_on s then alloc_ksight_buf E s else Some (0, s));
       let s = s\<lparr>child_pid := pid\<rparr>;
       (ret, s) \<leftarrow> enable_cs_trace E (if use then pid else 0) s;
       if ret < 0 then Some (ret, s) else Some (ret, set_trace_state running_state s)
     }) (started E pid s)"
    by (auto intro!: ensures_bind [rotated] ensures_bind [OF ensures_alloc_ksight] ensures_bind [OF ensures_enable] simp: Let_def)
qed

lemma appends_for_each_device: "appends s (for_each_device E f ds s)"
proof (induction ds arbitrary: s)
  case Nil
  then show ?case by (simp add: appends_Some)
next
  case (Cons d ds)
  show ?case unfolding for_each_device.simps by (intro appends_rules Cons)
qed

lemma appends_show_etm_configs: "appends s (show_etm_configs E ds s)"
proof (induction ds arbitrary: s)
  case Nil
  then show ?case by (simp add: appends_Some)
next
  case (Cons d ds)
  show ?case unfolding show_etm_configs.simps by (intro appends_rules appends_show_etm_config Cons)
qed

lemma appends_disable_trace: "appends s (disable_trace E v b dv s)"
  unfolding disable_trace_def
  by (cases b; cases dv) (simp_all add: appends_Some,
    intro appends_rules appends_for_each_device appends_show_etm_configs appends_flush)

lemma appends_retry: "(\<And>t. appends t (op t)) \<Longrightarrow> appends s (retry E op n ret s)"
proof (induction n arbitrary: ret s)
  case 0
  then show ?case by (simp add: appends_Some)
next
  case (Suc n)
  show ?case unfolding retry.simps by (intro appends_rules Suc)
qed

lemma appends_disable_cs_trace: "appends s (disable_cs_trace E all s)"
  unfolding disable_cs_trace_def
  by (rule appends_retry) (simp add: appends_disable_trace ds.op_appends)

text \<open>The calls that write \<open>data\<close> to the file \<open>name\<close> of the directory \<open>cwd\<close>, and lists of calls that write to no file.\<close>

definition file_write :: "env \<Rightarrow> call list \<Rightarrow> string \<Rightarrow> string \<Rightarrow> u8 list \<Rightarrow> call list" where
  "file_write E h cwd name data =
     (let opn = OS (Fopen (take (PATH_MAX - 1) (cwd @ ''/'' @ name)) ''wb''); fp = a_int E (h @ [OS Getcwd]) opn
      in [OS Getcwd, opn, OS (Fwrite fp data), OS (Fclose fp)])"

definition no_fwrite :: "call list \<Rightarrow> bool" where
  "no_fwrite cs \<longleftrightarrow> (\<forall>fp data. OS (Fwrite fp data) \<notin> set cs)"

lemma export_calls:
  "buf_ok (trace_buf s) \<Longrightarrow> a_text E (hist s) (OS Getcwd) = Some cwd \<Longrightarrow> (\<And>h f m. a_int E h (OS (Fopen f m)) \<noteq> 0) \<Longrightarrow>
   export_trace E name s = Some (0, s\<lparr>hist := hist s @ file_write E (hist s) cwd name (contents (trace_buf s))\<rparr>)"
  using load_contents [of "trace_buf s"]
  by (simp add: export_trace_def export_buf_def ask_defs snprintf_def file_write_def Let_def)

lemma free_trace_buf_calls:
  "buf_live (trace_buf s) \<longrightarrow> buf (trace_buf s) \<noteq> 0 \<Longrightarrow>
   \<exists>rest t. free_trace_buf E s = Some ((), t) \<and> hist t = hist s @ rest \<and> no_fwrite rest \<and> \<not> buf_live (trace_buf t)"
  by (auto simp: free_trace_buf_def ask_defs no_fwrite_def)

lemma fini_export_calls:
  assumes "buf_ok (trace_buf s)" and "\<not> ksight_on s"
    and "\<And>h. a_text E h (OS Getcwd) = Some cwd" and "\<And>h f m. a_int E h (OS (Fopen f m)) \<noteq> 0"
  shows "\<exists>s' rest. fini_export E s = Some ((), s') \<and>
     hist s' = hist s @ file_write E (hist s) cwd ''cstrace.bin'' (contents (trace_buf s)) @ rest @ [CS Cs_shutdown] \<and>
     no_fwrite rest \<and> \<not> buf_live (trace_buf s')"
proof -
  let ?x = "file_write E (hist s) cwd ''cstrace.bin'' (contents (trace_buf s))"
  let ?s = "s\<lparr>hist := hist s @ ?x\<rparr>"
  have x: "export_trace E DEFAULT_TRACE_NAME s = Some (0, ?s)"
    using export_calls [OF assms(1,3,4)] by (simp add: DEFAULT_TRACE_NAME_def)
  let ?dump = "Fputs_stderr (dump_map_info (map_infos s) (range_count s))"
  define dump where "dump = (if registration_verbose s > 0 then [OS ?dump] else [])"
  let ?t = "?s\<lparr>hist := hist ?s @ dump\<rparr>"
  obtain rest t where f: "free_trace_buf E ?t = Some ((), t)"
    "hist t = hist ?t @ rest" "no_fwrite rest" "\<not> buf_live (trace_buf t)"
    using free_trace_buf_calls [of ?t E] assms(1) by (auto simp: buf_ok_def)
  then have "fini_export E s = Some ((), t\<lparr>hist := hist t @ [CS Cs_shutdown]\<rparr>)"
    using assms(2) x by (cases "registration_verbose s > 0") (simp_all add: fini_export_def ask_defs dump_def)
  with f show ?thesis by (auto simp: dump_def no_fwrite_def)
qed

lemma disable_cs_trace_total:
  assumes "board s = Some b" and "registration_verbose s = 0"
  shows "\<exists>r cs. disable_cs_trace E True s = Some (r, s\<lparr>hist := hist s @ cs\<rparr>) \<and> (r = 0 \<or> r = -1)"
proof -
  have "returns (disable_cs_trace E True s) (\<lambda>r s'. r = 0 \<or> r = -1)"
    using dt.retry_outcome [of E b "devices s" 7 0 s] assms
    by (auto simp: disable_cs_trace_def TRACE_DISABLE_TRIAL_def)
  then show ?thesis using appends_disable_cs_trace [of s E True] by (auto elim!: returnsE simp: appends_def)
qed

section \<open>Properties\<close>

text \<open>C8. \<open>disable_cs_trace\<close> always ends after at most eight attempts: it returns 0 right after the first attempt
  that succeeds, and -1 after eight failures; after each failure it waits and resets the error count;
  apart from the calls nothing changes. (For the full disable, at the default verbosity and with a board.)\<close>

theorem disable_cs_trace_bounded_retry:
  assumes "disable_all \<longrightarrow> registration_verbose s = 0 \<and> board s = Some b"
    and "attempt = (\<lambda>t. if disable_all then disable_trace E 0 (Some b) (Some (devices s)) t
                        else disable_trace_sinks_only E (Some (devices s)) t)"
  shows "returns (disable_cs_trace E disable_all s) (\<lambda>r s'. s' = s\<lparr>hist := hist s'\<rparr> \<and>
     ((\<exists>k < 8. \<exists>t. failed_attempts attempt k s t \<and> attempt t = Some (0, s') \<and> r = 0) \<or>
      (failed_attempts attempt 8 s s' \<and> r = -1)))"
proof -
  have app: "appends t (attempt t)" for t
    by (simp add: assms(2) dt.op_appends ds.op_appends)
  have R: "returns (retry E attempt (Suc 7) 0 s) (\<lambda>r s'.
     (\<exists>k \<le> 7. \<exists>t. failed_attempts attempt k s t \<and> attempt t = Some (0, s') \<and> r = 0) \<or>
     (failed_attempts attempt (Suc 7) s s' \<and> r = -1))"
    by (cases disable_all)
      (use dt.retry_outcome [of E b "devices s" 7 0 s] ds.retry_outcome [of E "devices s" 7 0 s] in \<open>simp_all add: assms(2)\<close>)
  have eq: "disable_cs_trace E disable_all s = retry E attempt (Suc 7) 0 s"
    using assms(1) by (cases disable_all) (simp_all add: disable_cs_trace_def assms(2) TRACE_DISABLE_TRIAL_def)
  have frame: "s' = s\<lparr>hist := hist s'\<rparr>"
    if "failed_attempts attempt k s t" "t = s' \<or> attempt t = Some (0, s')" for k t s'
  proof -
    note f = that
    from failed_attempts_appends [OF app f(1)] obtain cs where "t = s\<lparr>hist := hist s @ cs\<rparr>" by blast
    moreover obtain ds where "s' = t\<lparr>hist := hist t @ ds\<rparr>"
    proof (cases "t = s'")
      case True
      then show ?thesis using that [of "[]"] by simp
    next
      case False
      then have "attempt t = Some (0, s')" using f(2) by simp
      then show ?thesis by (rule appendsE [OF app]) (rule that)
    qed
    ultimately show ?thesis by simp
  qed
  show ?thesis unfolding eq
  proof (rule returns_mono [OF R])
    fix r s'
    assume "(\<exists>k \<le> 7. \<exists>t. failed_attempts attempt k s t \<and> attempt t = Some (0, s') \<and> r = 0) \<or>
       failed_attempts attempt (Suc 7) s s' \<and> r = -1"
    then show "s' = s\<lparr>hist := hist s'\<rparr> \<and> ((\<exists>k < 8. \<exists>t. failed_attempts attempt k s t \<and> attempt t = Some (0, s') \<and> r = 0) \<or>
       failed_attempts attempt 8 s s' \<and> r = -1)"
    proof (elim disjE exE conjE)
      fix k t
      assume "k \<le> 7" and f: "failed_attempts attempt k s t" "attempt t = Some (0, s')" "r = 0"
      then have "k < 8" by simp
      with f frame [OF f(1)] show ?thesis by blast
    next
      assume f: "failed_attempts attempt (Suc 7) s s'" and "r = -1"
      with frame [OF f] show ?thesis by simp
    qed
  qed
qed

text \<open>C32. \<open>enable_cs_trace\<close>, on every outcome: it returns 0 or -1; a failure ends with \<open>cs_shutdown\<close> and keeps the
  first-trace flag, a success clears it; apart from the calls, the device table and the flag nothing
  changes, and the device table only changes when the trace is enabled for the first time.\<close>

theorem enable_cs_trace_outcome:
  assumes "enable_cs_trace E pid s = Some (r, s')"
  shows "\<exists>new. hist s' = hist s @ new \<and>
     s' = s\<lparr>hist := hist s', devices := devices s', is_first_trace := is_first_trace s'\<rparr> \<and>
     (if r = 0 then \<not> is_first_trace s'
      else r = -1 \<and> is_first_trace s' = is_first_trace s \<and> new \<noteq> [] \<and> last new = CS Cs_shutdown) \<and>
     (\<not> is_first_trace s \<longrightarrow> devices s' = devices s)"
  using enable_cs_trace_frame [OF assms] by auto

text \<open>C33. After the first time the sources are left alone: \<open>enable_cs_trace\<close> then only touches the sinks, and neither
  configures nor enables a trace source.\<close>

theorem enable_cs_trace_again_sinks_only:
  assumes "\<not> is_first_trace s" and "enable_cs_trace E pid s = Some (r, s')"
  shows "\<exists>new. hist s' = hist s @ new \<and>
     (\<forall>c \<in> set new. \<exists>d m. c \<in> {CS (Cs_sink_enable d), CS (Cs_sink_etf_setup d m), CS (Cs_tmc_hw_fifo_enable d m),
        CS Cs_checkpoint, CS Cs_error_count, CS Do_dump_config, CS Cs_shutdown})"
proof -
  obtain r1 s1 where m: "enable_again E s = Some (r1, s1)"
    using assms by (cases "enable_again E s") (auto simp: enable_cs_trace_def)
  from enable_again_frame [OF m] obtain cs where s1: "s1 = s\<lparr>hist := hist s @ cs\<rparr>"
    and cs: "\<forall>c \<in> set cs. \<exists>d m. c \<in> {CS (Cs_sink_enable d), CS (Cs_sink_etf_setup d m), CS (Cs_tmc_hw_fifo_enable d m),
        CS Cs_checkpoint, CS Cs_error_count}" by blast
  obtain ds where "hist s' = hist s @ (cs @ ds)" "set ds \<subseteq> {CS Do_dump_config, CS Cs_shutdown}"
    using assms m s1 by (auto simp: enable_cs_trace_def ask_defs split: if_splits)
  then show ?thesis using cs by (intro exI [of _ "cs @ ds"]) fastforce
qed

text \<open>C21. \<open>init_trace\<close>, on every outcome, for CPU numbers that are C integers. A failure of any step ends with \<open>cs_shutdown\<close> and
  leaves the state machine and the buffers as they were. A result of 0 comes with at most one memory range and a valid CPU
  (the requested one, if one was requested); then either the ready state is reached with the identifier that \<open>configure_trace\<close> gives to the
  source of that CPU, or the number of the CPU is so large that the identifier overflows, which happens with
  a fetcher only: then the state machine has not moved although the result is 0.\<close>

theorem init_trace_outcome:
  assumes "init_trace E v ppid pid s = Some (r, s')" and "trace_cpu s < 2 ^ 31" and "nprocs_contract E"
  shows "if r = 0
     then 0 \<le> trace_cpu s' \<and> (0 \<le> trace_cpu s \<longrightarrow> trace_cpu s' = trace_cpu s) \<and> 0 \<le> range_count s' \<and> range_count s' \<le> 1 \<and>
       trace_buf s' = trace_buf s \<and> ksight_buf s' = ksight_buf s \<and>
       (if trace_cpu s' < 2 ^ 31 - 16 then trace_state s' = ready_state \<and> trace_id s' = 0x10 + trace_cpu s'
        else fetcher_on s \<and> trace_id s' < 0 \<and> trace_state s' = trace_state s \<and> trace_event s' = trace_event s)
     else trace_state s' = trace_state s \<and> trace_event s' = trace_event s \<and> trace_buf s' = trace_buf s \<and>
       ksight_buf s' = ksight_buf s \<and> (\<exists>h. hist s' = h @ [CS Cs_shutdown])"
proof -
  obtain r1 s1 where i: "init_steps E v ppid pid s = Some (r1, s1)"
    using assms by (cases "init_steps E v ppid pid s") (auto simp: init_trace_def)
  have s': "r = r1" "s' = (if r1 \<noteq> 0 then s1\<lparr>hist := hist s1 @ [CS Cs_shutdown]\<rparr> else s1)"
    using assms i by (auto simp: init_trace_def ask_defs split: if_splits)
  note o = ensuresD [OF init_steps_outcome i]
  show ?thesis
  proof (cases "r = 0")
    case True
    with o s' assms(2,3) have "initialised s s'" "trace_cpu s' < 2 ^ 31" "0 \<le> trace_cpu s \<longrightarrow> trace_cpu s' = trace_cpu s" by auto
    then show ?thesis using True get_trace_id_cases [of "trace_cpu s'"] by (auto simp: initialised_def settings_def split: if_splits)
  next
    case False
    with o s' show ?thesis by (auto simp: settings_def)
  qed
qed

text \<open>The CPU that \<open>find_free_cpu\<close> finds is never used: when there is no preferred CPU, \<open>init_trace\<close> selects CPU 0
  if a free CPU was found, whichever it was, and CPU 1 if none was found.\<close>

theorem choose_cpu_ignores_free_cpu:
  assumes "trace_cpu s < 0" and "get_preferred_cpu E ppid s = Some (p, s1)" and "p < 0"
    and "find_free_cpu E s1 = Some (r, s2)"
  shows "\<exists>s'. choose_cpu E ppid s = Some ((), s') \<and> trace_cpu s' = (if r < 0 then 1 else 0)"
  using assms by (simp add: choose_cpu_def)

text \<open>C34. \<open>start_trace\<close>: on failure the state machine has not moved; on success it is running, the child is
  recorded, the trace is enabled, and, if the kernel could map it, the trace buffer is empty and well formed.\<close>

theorem start_trace_outcome:
  assumes "start_trace E pid use s = Some (r, s')"
    and "\<And>h. mapping_at (a_u64 E h (OS (Mmap DEFAULT_TRACE_SIZE))) DEFAULT_TRACE_SIZE"
  shows "if r < 0 then trace_state s' = trace_state s \<and> trace_event s' = trace_event s
     else r = 0 \<and> trace_state s' = running_state \<and> child_pid s' = pid \<and> \<not> is_first_trace s' \<and>
       buf_ok (trace_buf s') \<and> contents (trace_buf s') = []"
  using ensuresD [OF start_trace_started assms(1)] alloc_buf_ok(2,3) [OF assms(2)] by (auto simp: started_def)

text \<open>A failure to map the trace buffer goes unnoticed: \<open>start_trace\<close> still succeeds, with \<open>MAP_FAILED\<close> as the buffer,
  and the first fetch of a non-empty trace then stores through a null pointer.\<close>

theorem start_trace_ignores_failed_mmap:
  assumes "start_trace E pid use s = Some (0, s')" and "trace_buf s = null_buf"
    and "\<And>h. a_u64 E h (OS (Mmap DEFAULT_TRACE_SIZE)) = MAP_FAILED"
    and "\<And>h d. a_int E h (CS (Cs_get_buffer_unread_bytes d)) = n" and "0 \<le> n" and "n < 2 ^ 31"
    and "\<And>h d p k. snd (a_bytes E h (CS (Cs_get_trace_data d p k))) \<noteq> []"
  shows "trace_state s' = running_state \<and> buf (trace_buf s') = MAP_FAILED \<and> fetch_trace E s' = None"
proof -
  have b: "trace_buf s' = null_buf\<lparr>buf := MAP_FAILED\<rparr>" and st: "trace_state s' = running_state"
    using ensuresD [OF start_trace_started assms(1)] assms(2,3)
    by (auto simp: started_def alloc_buf_def null_buf_def)
  have al: "ALIGN_UP (0 :: u64) 8 = 0" by (simp add: ALIGN_UP_def)
  have "unat (size_t_of_int n) = nat n" using assms(5,6) by (intro unat_size_t_of_int) simp_all
  then have "\<not> size_t_of_int n > (- 1 :: u64)" by (simp add: not_less)
  then have "fetch_trace E s' = None"
    using assms(4,7) by (simp add: fetch_trace_def ask_defs b null_buf_def al grow_trace_buf.simps buf_remain_def buf_offset_def
        MAP_FAILED_def store_bytes_def case_prod_beta)
  with b st show ?thesis by simp
qed

text \<open>\<open>stop_trace\<close>: it moves to the ready state and signals the stop event exactly if the trace could be disabled.\<close>

theorem stop_trace_outcome:
  assumes "stop_trace E all s = Some (r, s')" and "trace_state s \<noteq> init_state"
  shows "if r < 0 then disable_cs_trace E all s = Some (r, s')
     else trace_state s' = ready_state \<and> trace_event s' = stop_event \<and>
       (\<exists>t. disable_cs_trace E all s = Some (r, t) \<and> hist s' = hist t) \<and> trace_buf s' = trace_buf s"
proof -
  obtain r1 t where d: "disable_cs_trace E all s = Some (r1, t)"
    using assms by (cases "disable_cs_trace E all s") (auto simp: stop_trace_def)
  obtain cs where "t = s\<lparr>hist := hist s @ cs\<rparr>" by (rule appendsE [OF appends_disable_cs_trace d])
  with assms d show ?thesis
    by (auto simp: stop_trace_def set_trace_state_def signal_trace_event_def split: if_splits)
qed

text \<open>C15. Without a fetcher and without ksight, \<open>fini_trace\<close> ends. It first reads the sink: these calls are those of one fetch from the
  ETR, and \<open>data\<close> is what the sink answered (nothing, if the buffer cannot be enlarged for it). Then the file \<open>cstrace.bin\<close> receives, in one
  write, exactly the bytes collected before, fewer than eight bytes of alignment, and \<open>data\<close>. Nothing more is written, the
  buffer is unmapped, and the shutdown of CSAL is the last call.\<close>

theorem fini_trace_exports:
  assumes "\<not> fetcher_on s" and "\<not> ksight_on s" and "buf_ok (trace_buf s)"
    and "mremap_contract E" and "unread_contract E" and "trace_data_contract E"
    and "\<And>h. a_text E h (OS Getcwd) = Some cwd" and "\<And>h f m. a_int E h (OS (Fopen f m)) \<noteq> 0"
  shows "\<exists>s' new data pad rest. fini_trace E fetcher s = Some ((), s') \<and>
     fetch_calls E (etb (devices s)) (hist s) new data \<and> length pad < 8 \<and> no_fwrite rest \<and>
     hist s' = hist s @ new @ file_write E (hist s @ new) cwd ''cstrace.bin'' (contents (trace_buf s) @ pad @ data)
        @ rest @ [CS Cs_shutdown] \<and>
     \<not> buf_live (trace_buf s')"
proof -
  obtain r s1 new pad data where f: "fetch_trace E s = Some (r, s1)" "buf_ok (trace_buf s1)"
    "s1 = s\<lparr>hist := hist s @ new, trace_buf := trace_buf s1\<rparr>" "length pad < 8" "fetch_calls E (etb (devices s)) (hist s) new data"
    "contents (trace_buf s1) = contents (trace_buf s) @ pad @ data"
    using fetch_trace_ok [OF assms(3-6)] pad8_less by (elim returnsE) metis
  from f(3) obtain b1 where "s1 = s\<lparr>hist := hist s @ new, trace_buf := b1\<rparr>" by blast
  then have h1: "hist s1 = hist s @ new" and k1: "\<not> ksight_on s1" using assms(2) by simp_all
  from fini_export_calls [OF f(2) k1 assms(7,8)] obtain s' rest where "fini_export E s1 = Some ((), s')"
    "hist s' = hist s1 @ file_write E (hist s1) cwd ''cstrace.bin'' (contents (trace_buf s1)) @ rest @ [CS Cs_shutdown]"
    "no_fwrite rest" "\<not> buf_live (trace_buf s')" by blast
  with assms(1) f(1,4,5,6) h1 show ?thesis
    by (intro exI [of _ s'] exI [of _ new] exI [of _ data] exI [of _ pad] exI [of _ rest]) (simp add: fini_trace_def)
qed

section \<open>Witnesses\<close>

text \<open>A board on which everything succeeds; the sink delivers four bytes.\<close>

definition session_int :: "call list \<Rightarrow> call \<Rightarrow> int" where
  "session_int h c = (case c of
       CS (Cs_get_buffer_unread_bytes _) \<Rightarrow> 4
     | CS c \<Rightarrow> sample_int h (CS c)
     | OS (Open _) \<Rightarrow> 3 | OS (Stat_isdir _) \<Rightarrow> 1 | OS (Fopen _ _) \<Rightarrow> 5 | OS Get_nprocs \<Rightarrow> 4 | OS (Cpu_alloc _) \<Rightarrow> 1
     | _ \<Rightarrow> 0)"

definition session_env :: env where
  "session_env = sample_env\<lparr>a_int := session_int,
     a_u64 := (\<lambda>h c. case c of OS (Mremap _ _ _) \<Rightarrow> MAP_FAILED | _ \<Rightarrow> 0x200000),
     a_bytes := (\<lambda>h c. case c of
         CS (Cs_get_trace_data d p n) \<Rightarrow> if 4 \<le> unat n then (4, [1, 2, 3, 4]) else (0, [])
       | _ \<Rightarrow> (0, [])),
     a_text := (\<lambda>h c. case c of OS Getcwd \<Rightarrow> Some ''/tmp'' | OS (Read_text _) \<Rightarrow> Some '''' | _ \<Rightarrow> Some [CHR ''4'', CHR 0x0A]),
     a_board := (\<lambda>h c. (0, Some sample_board, sample_devices))\<rparr>"

definition session_state :: globals where
  "session_state = initial_globals\<lparr>trace_state := ready_state, trace_cpu := 2, board := Some sample_board,
     devices := sample_devices, is_first_trace := False\<rparr>"

lemma session_env_simps [simp]:
  "a_int session_env = session_int" "a_text session_env h (OS Getcwd) = Some ''/tmp''"
  "a_text session_env h (OS (Read_text p)) = Some ''''" "a_text session_env h (OS (Read fd n)) = Some [CHR ''4'', CHR 0x0A]"
  "a_board session_env h c = (0, Some sample_board, sample_devices)" "a_u64 session_env h (OS (Mmap n)) = 0x200000"
  "a_u64 session_env h (OS (Mmap_file fd n f)) = 0x200000" "a_u32 session_env h c = 0"
  by (simp_all add: session_env_def)

lemma session_contracts:
  "mremap_contract session_env" "unread_contract session_env" "trace_data_contract session_env"
  by (auto simp: session_env_def mremap_contract_def unread_contract_def trace_data_contract_def session_int_def)

lemma session_state_simps [simp]:
  "devices session_state = sample_devices" "board session_state = Some sample_board" "hist session_state = []"
  "trace_state session_state = ready_state" "trace_cpu session_state = 2" "\<not> is_first_trace session_state"
  "\<not> export_config session_state" "\<not> ksight_on session_state" "\<not> fetcher_on session_state"
  "registration_verbose session_state = 0" "trace_buf session_state = null_buf"
  by (simp_all add: session_state_def initial_globals_def)

text \<open>The answers of CSAL to all calls but the size of the unread trace are those of the sample environment.\<close>

definition like_sample :: "env \<Rightarrow> bool" where
  "like_sample E \<longleftrightarrow> (\<forall>h c. (\<forall>d. c \<noteq> Cs_get_buffer_unread_bytes d) \<longrightarrow> a_int E h (CS c) = sample_int h (CS c))"

lemma session_like_sample: "a_int E = session_int \<Longrightarrow> like_sample E"
  by (auto simp: like_sample_def session_int_def split: cs_call.split)

lemma enable_like_sample:
  assumes "like_sample E" and "devices t = sample_devices" and "\<not> is_first_trace t"
  shows "\<exists>s'. enable_cs_trace E p t = Some (0, s')"
proof -
  let ?sc = "enable_sinks_script E sample_devices @ [(CS Cs_checkpoint, any_result), (CS Cs_error_count, no_errors)]"
  have "run_script E ?sc (hist t) = (True, hist t @ map fst ?sc)"
    using assms(1)
    by (intro run_script_all_pass)
      (auto simp: like_sample_def enable_sinks_script_def etf_script_def tpiu_script_def check_defs sample_int_def)
  with assms show ?thesis
    by (auto simp: enable_cs_trace_def enable_again_def enable_trace_sinks_only_script script_result_def ask_defs)
qed

lemmas enable_session = enable_like_sample [OF session_like_sample [OF session_env_simps(1)]]

text \<open>Environments that answer like the session environment where initialisation and start of a session ask.\<close>

definition like_session :: "env \<Rightarrow> bool" where
  "like_session E \<longleftrightarrow> like_sample E \<and> (\<forall>h c. c \<noteq> Fork \<longrightarrow> a_int E h (OS c) = session_int h (OS c)) \<and>
     (\<forall>h c. a_text E h c = a_text session_env h c) \<and> (\<forall>h c. a_board E h c = a_board session_env h c) \<and>
     (\<forall>h n. a_u64 E h (OS (Mmap n)) = 0x200000)"

lemma session_like_session: "like_session session_env"
  by (simp add: like_session_def session_like_sample)

lemma init_like_session:
  assumes "like_session E"
  shows "\<exists>s'. init_trace E any_locals 1 77 (initial_globals\<lparr>hist := h, trace_cpu := 2, is_first_trace := i, fetcher_on := b\<rparr>) =
      Some (0, s') \<and> devices s' = sample_devices \<and> board s' = Some sample_board \<and> is_first_trace s' = i \<and> \<not> ksight_on s' \<and>
     fetcher_on s' = b \<and> trace_state s' = ready_state \<and> trace_cpu s' = 2"
proof -
  have "attr_string [CHR ''4'', CHR 0x0A] = Some [CHR ''4'', CHR 0x0A]"
    by (simp add: attr_string_def cstr_def sizeof_attr_def)
  with assms show ?thesis
    by (simp add: like_session_def init_trace_def init_steps_def choose_cpu_def init_udmabuf_def get_udmabuf_info_def is_dir_def
        read_attr_def init_ksight_def init_maps_def setup_map_info_def stream_text_def init_board_def init_ready_def ask_defs
        session_int_def initial_globals_def Let_def get_trace_id_cases set_trace_state_def signal_trace_event_def)
qed

text \<open>A CPU number for which the identifier overflows.\<close>

lemma init_overflow_session:
  "\<exists>s'. init_trace session_env any_locals 1 77 (initial_globals\<lparr>trace_cpu := 2147483632, fetcher_on := True\<rparr>) = Some (0, s') \<and>
     trace_cpu s' = 2147483632"
proof -
  have "attr_string [CHR ''4'', CHR 0x0A] = Some [CHR ''4'', CHR 0x0A]"
    by (simp add: attr_string_def cstr_def sizeof_attr_def)
  then show ?thesis
    by (simp add: init_trace_def init_steps_def choose_cpu_def init_udmabuf_def get_udmabuf_info_def is_dir_def
        read_attr_def init_ksight_def init_maps_def setup_map_info_def stream_text_def init_board_def init_ready_def ask_defs
        session_int_def initial_globals_def Let_def get_trace_id_cases)
qed

lemma start_like_session:
  assumes "like_session E" and "devices s = sample_devices" and "\<not> is_first_trace s" and "\<not> ksight_on s"
    and "trace_state s = ready_state" and "trace_cpu s = 2"
  shows "\<exists>s'. start_trace E 77 True s = Some (0, s') \<and> devices s' = sample_devices \<and> \<not> is_first_trace s' \<and> \<not> ksight_on s' \<and>
     fetcher_on s' = fetcher_on s \<and> trace_state s' = running_state \<and> trace_event s' = start_event \<and> (\<exists>cs. hist s' = hist s @ cs)"
proof -
  have "\<exists>h. set_cpu_affinity E 2 77 s = Some (0, s\<lparr>hist := hist s @ h\<rparr>)"
    using assms(1) by (simp add: like_session_def set_cpu_affinity_def alloc_cpu_set_def ask_defs session_int_def) (rule exI, rule refl)
  then obtain h where h: "set_cpu_affinity E 2 77 s = Some (0, s\<lparr>hist := hist s @ h\<rparr>)" ..
  let ?t = "s\<lparr>hist := hist s @ h @ [OS (Mmap DEFAULT_TRACE_SIZE)], trace_buf := snd (alloc_buf 0x200000 (trace_buf s)), child_pid := 77\<rparr>"
  obtain s' where e: "enable_cs_trace E 77 ?t = Some (0, s')"
    using enable_like_sample [of E ?t 77] assms(1-3) by (auto simp: like_session_def)
  from enable_cs_trace_frame [OF e] assms(2,3) obtain cs where
    "s' = ?t\<lparr>hist := hist ?t @ cs, devices := sample_devices, is_first_trace := False\<rparr>" by auto
  with h e assms show ?thesis
    by (auto simp: like_session_def start_trace_def alloc_trace_buf_eq set_trace_state_def signal_trace_event_def Let_def)
qed

lemma start_session: "\<exists>s'. start_trace session_env 77 True session_state = Some (0, s')"
  using start_like_session [OF session_like_session, of session_state] by auto

lemma stop_session: "\<exists>s'. stop_trace session_env True session_state = Some (0, s')"
proof -
  let ?sc = "disable_sources_script sample_board sample_devices @ disable_sinks_script sample_devices @
      tpiu_script Cs_sink_disable sample_devices @ [(CS Cs_error_count, no_errors)]"
  have "run_script session_env ?sc h = (True, h @ map fst ?sc)" for h
    by (rule run_script_all_pass)
      (auto simp: disable_sources_script_def disable_sinks_script_def each_script_def tpiu_script_def check_defs
        session_int_def sample_int_def)
  then have "\<exists>s'. disable_trace session_env 0 (Some sample_board) (Some sample_devices) session_state = Some (0, s')"
    by (simp only: disable_trace_script [OF zero_le_one] script_result_def append_assoc) simp
  then show ?thesis
    by (auto simp: stop_trace_def disable_cs_trace_def TRACE_DISABLE_TRIAL_def numeral_eq_Suc)
qed

lemma devices_hist: "s' = s\<lparr>hist := h\<rparr> \<Longrightarrow> devices s' = devices s"
  by simp

theorem disable_cs_trace_bounded_retry_witness:
  "returns (disable_cs_trace session_env True session_state) (\<lambda>r s'. (r = 0 \<or> r = -1) \<and> devices s' = sample_devices)"
proof (rule returns_mono [OF disable_cs_trace_bounded_retry [of True session_state sample_board _ session_env, OF _ refl]])
  show "True \<longrightarrow> registration_verbose session_state = 0 \<and> board session_state = Some sample_board" by simp
qed (auto dest!: devices_hist)

theorem enable_cs_trace_outcome_witness:
  "\<exists>s'. enable_cs_trace session_env 77 session_state = Some (0, s') \<and> \<not> is_first_trace s' \<and> devices s' = sample_devices"
proof -
  obtain s' where run: "enable_cs_trace session_env 77 session_state = Some (0, s')"
    using enable_session [of session_state 77] by auto
  from enable_cs_trace_outcome [OF run] run show ?thesis by auto
qed

theorem enable_cs_trace_again_sinks_only_witness:
  "\<exists>s'. enable_cs_trace session_env 77 session_state = Some (0, s') \<and> CS (Cs_trace_enable 0x100) \<notin> set (hist s')"
proof -
  obtain s' where run: "enable_cs_trace session_env 77 session_state = Some (0, s')"
    using enable_session [of session_state 77] by auto
  from enable_cs_trace_again_sinks_only [OF _ run] have "CS (Cs_trace_enable 0x100) \<notin> set (hist s')" by fastforce
  with run show ?thesis by blast
qed

theorem init_trace_outcome_witness:
  "(\<exists>s'. init_trace session_env any_locals 1 77 (initial_globals\<lparr>trace_cpu := 2\<rparr>) = Some (0, s') \<and>
      trace_state s' = ready_state \<and> trace_id s' = 0x12) \<and>
   (\<exists>s'. init_trace session_env any_locals 1 77 (initial_globals\<lparr>trace_cpu := 2147483632, fetcher_on := True\<rparr>) = Some (0, s') \<and>
      trace_state s' = init_state \<and> trace_id s' < 0)"
proof -
  let ?s = "initial_globals\<lparr>trace_cpu := 2\<rparr>" and ?t = "initial_globals\<lparr>trace_cpu := 2147483632, fetcher_on := True\<rparr>"
  have n: "nprocs_contract session_env" by (simp add: nprocs_contract_def session_int_def)
  have "?s = initial_globals\<lparr>hist := [], trace_cpu := 2, is_first_trace := True, fetcher_on := False\<rparr>"
    by (simp add: initial_globals_def)
  then obtain s' where run: "init_trace session_env any_locals 1 77 ?s = Some (0, s')" and cpu: "trace_cpu s' = 2"
    using init_like_session [OF session_like_session, where h = "[]" and i = True and b = False] by auto
  obtain t' where over: "init_trace session_env any_locals 1 77 ?t = Some (0, t')" "trace_cpu t' = 2147483632"
    using init_overflow_session by blast
  show ?thesis
    using init_trace_outcome [OF run _ n] init_trace_outcome [OF over(1) _ n] run cpu over by (auto simp: initial_globals_def)
qed

theorem start_trace_outcome_witness:
  "\<exists>s'. start_trace session_env 77 True session_state = Some (0, s') \<and> trace_state s' = running_state \<and> buf_ok (trace_buf s')"
proof -
  from start_session obtain s' where run: "start_trace session_env 77 True session_state = Some (0, s')" ..
  have "mapping_at (a_u64 session_env h (OS (Mmap DEFAULT_TRACE_SIZE))) DEFAULT_TRACE_SIZE" for h
    by (simp add: mapping_at_def VA_LIMIT_def DEFAULT_TRACE_SIZE_def)
  from start_trace_outcome [OF run this] run show ?thesis by auto
qed

theorem stop_trace_outcome_witness:
  "\<exists>s'. stop_trace session_env True session_state = Some (0, s') \<and> trace_state s' = ready_state \<and> trace_event s' = stop_event"
proof -
  from stop_session obtain s' where run: "stop_trace session_env True session_state = Some (0, s')" ..
  from stop_trace_outcome [OF run] run show ?thesis by auto
qed

theorem fini_trace_exports_witness:
  "\<exists>s' new data pad rest. fini_trace session_env (\<lambda>_. None) (session_state\<lparr>trace_buf := five_bytes_buf\<rparr>) = Some ((), s') \<and>
     fetch_calls session_env (etb sample_devices) [] new data \<and>
     hist s' = new @ [OS Getcwd, OS (Fopen ''/tmp/cstrace.bin'' ''wb''), OS (Fwrite 5 ([0, 1, 2, 3, 4] @ pad @ data)), OS (Fclose 5)]
       @ rest @ [CS Cs_shutdown]"
proof -
  let ?s = "session_state\<lparr>trace_buf := five_bytes_buf\<rparr>"
  have "a_int session_env h (OS (Fopen f m)) \<noteq> 0" for h f m by (simp add: session_int_def)
  from fini_trace_exports [of ?s session_env "''/tmp''" "\<lambda>_. None", OF _ _ _ session_contracts _ this]
  show ?thesis by (simp add: five_bytes_ok five_bytes_contents file_write_def session_int_def PATH_MAX_def Let_def) blast
qed

text \<open>A kernel that cannot map memory.\<close>

definition no_mmap_env :: env where
  "no_mmap_env = session_env\<lparr>a_u64 := (\<lambda>h c. MAP_FAILED), a_bytes := (\<lambda>h c. (4, [1, 2, 3, 4]))\<rparr>"

theorem start_trace_ignores_failed_mmap_witness:
  "\<exists>s'. start_trace no_mmap_env 77 True session_state = Some (0, s') \<and> buf (trace_buf s') = MAP_FAILED \<and>
     fetch_trace no_mmap_env s' = None"
proof -
  let ?t = "session_state\<lparr>hist := [OS Get_nprocs, OS (Cpu_alloc 4), OS (Sched_setaffinity 77 (CPU_SET_S 2 (CPU_ALLOC_SIZE 4) {})),
      OS (Mmap DEFAULT_TRACE_SIZE)], trace_buf := snd (alloc_buf MAP_FAILED null_buf), child_pid := 77\<rparr>"
  have i: "a_int no_mmap_env = session_int" by (simp add: no_mmap_env_def)
  have "\<exists>s'. enable_cs_trace no_mmap_env 77 ?t = Some (0, s')"
    by (rule enable_like_sample [OF session_like_sample [OF i]]) simp_all
  moreover have "set_cpu_affinity no_mmap_env 2 77 session_state =
      Some (0, session_state\<lparr>hist := [OS Get_nprocs, OS (Cpu_alloc 4), OS (Sched_setaffinity 77 (CPU_SET_S 2 (CPU_ALLOC_SIZE 4) {}))]\<rparr>)"
    by (simp add: set_cpu_affinity_def alloc_cpu_set_def ask_defs session_int_def i)
  moreover have u: "a_u64 no_mmap_env h c = MAP_FAILED" "snd (a_bytes no_mmap_env h c) \<noteq> []" for h c
    by (simp_all add: no_mmap_env_def)
  ultimately obtain s' where run: "start_trace no_mmap_env 77 True session_state = Some (0, s')"
    by (auto simp: start_trace_def alloc_trace_buf_eq Let_def)
  have "a_int no_mmap_env h (CS (Cs_get_buffer_unread_bytes d)) = 4" for h d by (simp add: i session_int_def)
  from start_trace_ignores_failed_mmap [OF run _ u(1) this _ _ u(2)] run show ?thesis by simp
qed

text \<open>No memory for a CPU set, and a shell bound to CPU 0.\<close>

definition no_cpu_set_env :: env where
  "no_cpu_set_env = cpu_env\<lparr>a_int := (\<lambda>h c. case c of OS (Cpu_alloc _) \<Rightarrow> 0 | _ \<Rightarrow> 4)\<rparr>"

theorem choose_cpu_ignores_free_cpu_witness:
  "\<exists>s1 s2 s'. get_preferred_cpu no_cpu_set_env 7 initial_globals = Some (-1, s1) \<and> find_free_cpu no_cpu_set_env s1 = Some (1, s2) \<and>
     choose_cpu no_cpu_set_env 7 initial_globals = Some ((), s') \<and> trace_cpu s' = 0"
proof -
  have st: "stable_files no_cpu_set_env" using cpu_env_stable by (simp add: no_cpu_set_env_def stable_files_def)
  have "proc_fs no_cpu_set_env {7, 9} (\<lambda>p. Some {p}) cpu_threads"
    unfolding no_cpu_set_env_def by (rule cpu_proc_fs) simp
  from pinned_bound_cpus [OF this, unfolded cpu_bound] have pin: "pinned_cpus no_cpu_set_env = {0}"
    by (intro set_eqI) (simp add: MAX_CPUS_def conj_commute cong: conj_cong)
  obtain s1 where p: "get_preferred_cpu no_cpu_set_env 7 initial_globals = Some (-1, s1)"
    by (simp add: get_preferred_cpu_def alloc_cpu_set_def ask_defs no_cpu_set_env_def)
  have "\<exists>r h. find_free_cpu no_cpu_set_env s1 = Some (r, s1\<lparr>hist := h\<rparr>) \<and>
    (if \<forall>i < 4. i \<in> {0 :: nat} then r = -1 else \<exists>i. r = int i \<and> i < 4 \<and> i \<notin> {0} \<and> (\<forall>j < i. j \<in> {0 :: nat}))"
    unfolding pin [symmetric]
    by (rule find_free_cpu_result [OF st, of _ _ "[''self'', ''7'', ''9'']"])
      (simp_all add: no_cpu_set_env_def cpu_env_def cpu_dir_def MAX_CPUS_def)
  moreover have nf: "\<not> (\<forall>i < 4. i \<in> {0 :: nat})" by (auto intro!: exI [of _ 1])
  ultimately obtain i s2 where "find_free_cpu no_cpu_set_env s1 = Some (int i, s2)" "i \<noteq> 0" "\<forall>j < i. j = 0"
    unfolding if_not_P [OF nf] by auto
  moreover from this have "i = 1" by (metis less_one nat_neq_iff)
  ultimately have f: "find_free_cpu no_cpu_set_env s1 = Some (1, s2)" by simp
  have "trace_cpu initial_globals < 0" by (simp add: initial_globals_def)
  from choose_cpu_ignores_free_cpu [OF this p _ f] p f show ?thesis by auto
qed

end
