(* ===== verification/Calm.thy ===== *)
theory Calm
  imports Session
begin

text \<open>
  What the procedures of the tracer never do: send a signal to the traced process, or move the
  state machine of the trace. A procedure with this property is called calm. The rules of the
  collection \<open>frames\<close> prove it by following the shape of a procedure; \<open>init_trace\<close>, \<open>start_trace\<close>
  and \<open>stop_trace\<close> are calm up to the transition at their end. The interleaved model of the two
  threads is analysed with these facts.
\<close>

section \<open>Calm procedures\<close>

text \<open>A call that sends no signal to the child. \<open>stopped h\<close>: the last signal sent is \<open>SIGSTOP\<close>.\<close>

fun quiet :: "call \<Rightarrow> bool" where
  "quiet (OS (Kill p g)) = (g = SIG0)"
| "quiet c = True"

definition stopped :: "call list \<Rightarrow> bool" where
  "stopped h = (case filter (\<lambda>c. \<not> quiet c) (rev h) of [] \<Rightarrow> False | c # _ \<Rightarrow> (\<exists>p. c = OS (Kill p SIGSTOP)))"

lemma stopped_quiet: "\<forall>c \<in> set cs. quiet c \<Longrightarrow> stopped (h @ cs) = stopped h"
  by (simp add: stopped_def filter_empty_conv)

lemma stopped_snoc [simp]:
  "stopped (h @ [OS (Kill p SIGSTOP)])" "\<not> stopped (h @ [OS (Kill p SIGCONT)])"
  "quiet c \<Longrightarrow> stopped (h @ [c]) = stopped h"
  by (simp_all add: stopped_def)

text \<open>\<open>halted E pid h\<close>: \<open>waitpid\<close> has reported that the process was stopped by \<open>SIGSTOP\<close>, and no \<open>SIGCONT\<close> was sent since.\<close>

definition halted :: "env \<Rightarrow> int \<Rightarrow> call list \<Rightarrow> bool" where
  "halted E pid h \<longleftrightarrow> (\<exists>h1 h2. h = h1 @ OS (Waitpid pid) # h2 \<and> a_wait E h1 (OS (Waitpid pid)) = Stopped Stop_SIGSTOP \<and>
     (\<forall>p. OS (Kill p SIGCONT) \<notin> set h2))"

lemma halted_append: "halted E pid h \<Longrightarrow> \<forall>p. OS (Kill p SIGCONT) \<notin> set cs \<Longrightarrow> halted E pid (h @ cs)"
proof -
  assume "halted E pid h" and cs: "\<forall>p. OS (Kill p SIGCONT) \<notin> set cs"
  then obtain h1 h2 where "h = h1 @ OS (Waitpid pid) # h2" "a_wait E h1 (OS (Waitpid pid)) = Stopped Stop_SIGSTOP"
    "\<forall>p. OS (Kill p SIGCONT) \<notin> set h2" unfolding halted_def by blast
  with cs show ?thesis unfolding halted_def by (intro exI [of _ h1] exI [of _ "h2 @ cs"]) simp
qed

lemma halted_report: "a_wait E h (OS (Waitpid pid)) = Stopped Stop_SIGSTOP \<Longrightarrow> halted E pid (h @ [OS (Waitpid pid)])"
  by (fastforce simp: halted_def)

text \<open>A calm procedure sends no signal and leaves the state machine alone.\<close>

definition machine :: "'z globals_scheme \<Rightarrow> trace_state_t \<times> trace_event_t \<times> bool" where
  "machine s = (trace_state s, trace_event s, fetcher_on s)"

definition calm_to :: "'z globals_scheme \<Rightarrow> 'z globals_scheme \<Rightarrow> bool" where
  "calm_to s s' \<longleftrightarrow> machine s' = machine s \<and> (\<exists>cs. hist s' = hist s @ cs \<and> (\<forall>c \<in> set cs. quiet c))"

definition calm :: "'z globals_scheme \<Rightarrow> ('a \<times> 'z globals_scheme) option \<Rightarrow> bool" where
  "calm s m = ensures m (\<lambda>r s'. calm_to s s')"

lemma calm_to_same: "hist s' = hist s \<Longrightarrow> machine s' = machine s \<Longrightarrow> calm_to s s'"
  by (auto simp: calm_to_def)

lemma calm_to_trans:
  assumes "calm_to s s1" and "calm_to s1 s2"
  shows "calm_to s s2"
proof -
  from assms(1) obtain cs where "hist s1 = hist s @ cs" "\<forall>c \<in> set cs. quiet c" unfolding calm_to_def by blast
  moreover from assms(2) obtain ds where "hist s2 = hist s1 @ ds" "\<forall>c \<in> set ds. quiet c" unfolding calm_to_def by blast
  ultimately show ?thesis using assms unfolding calm_to_def by (intro conjI exI [of _ "cs @ ds"]) auto
qed

lemma calm_toD: "calm_to s s' \<Longrightarrow> machine s' = machine s \<and> stopped (hist s') = stopped (hist s)"
  by (auto simp: calm_to_def stopped_quiet)

lemma calm_to_halted: "calm_to s s' \<Longrightarrow> halted E pid (hist s) \<Longrightarrow> halted E pid (hist s')"
  by (fastforce simp: calm_to_def intro: halted_append)

lemma calmD: "calm s m \<Longrightarrow> m = Some (r, s') \<Longrightarrow> calm_to s s'"
  by (simp add: calm_def ensures_def)

lemma machine_hist [simp]: "machine (s\<lparr>hist := h\<rparr>) = machine s"
  by (simp add: machine_def)

lemma calm_Some [frames]: "calm s (Some (r, s))"
  by (simp add: calm_def calm_to_same)

lemma calm_None [frames]: "calm s None"
  by (simp add: calm_def ensures_def)

lemma calm_ask: "quiet c \<Longrightarrow> calm s (ask f c s)"
  by (auto simp: calm_def ask_def calm_to_def)

lemma calm_cs_int [frames]: "calm s (cs_int E c s)"
  by (simp add: cs_int_def calm_ask)

lemma calm_os_int: "quiet (OS c) \<Longrightarrow> calm s (os_int E c s)"
  by (simp add: os_int_def calm_ask)

lemma calm_ask_cs [frames]: "calm s (ask f (CS c) s)"
  by (simp add: calm_ask)

lemma calm_bind [frames]:
  assumes "calm s m" and "\<And>r s'. m = Some (r, s') \<Longrightarrow> calm s' (f r s')"
  shows "calm s (m \<bind> (\<lambda>(r, s'). f r s'))"
  using assms by (fastforce simp: calm_def ensures_def bind_eq_Some_conv intro: calm_to_trans)

lemma calm_prod [frames]: "(\<And>a b. calm s (f a b s')) \<Longrightarrow> calm s ((case p of (a, b) \<Rightarrow> f a b) s')"
  by (cases p) simp

lemma calm_case_prod [frames]: "(\<And>a b. p = (a, b) \<Longrightarrow> calm s (f a b)) \<Longrightarrow> calm s (case p of (a, b) \<Rightarrow> f a b)"
  by (cases p) simp

lemma calm_Let [frames]: "calm s (f x) \<Longrightarrow> calm s (Let x f)"
  by simp

lemma calm_if [frames]: "(b \<Longrightarrow> calm s m) \<Longrightarrow> (\<not> b \<Longrightarrow> calm s m') \<Longrightarrow> calm s (if b then m else m')"
  by simp

lemma calm_option [frames]:
  "(x = None \<Longrightarrow> calm s m) \<Longrightarrow> (\<And>a. x = Some a \<Longrightarrow> calm s (f a)) \<Longrightarrow>
   calm s (case x of None \<Rightarrow> m | Some a \<Rightarrow> f a)"
  by (cases x) auto

lemma calm_option_bind: "(\<And>x. m = Some x \<Longrightarrow> calm s (f x)) \<Longrightarrow> calm s (m \<bind> f)"
  by (cases m) (simp_all add: calm_None)

lemma calm_like: "hist s' = hist s \<Longrightarrow> machine s' = machine s \<Longrightarrow> calm s' m \<Longrightarrow> calm s m"
  by (auto simp: calm_def calm_to_def ensures_def)

lemma calm_end: "hist s' = hist s \<Longrightarrow> machine s' = machine s \<Longrightarrow> calm s (Some (r, s'))"
  by (simp add: calm_def calm_to_same)

text \<open>Every system call but \<open>kill\<close> is calm.\<close>

lemma calm_calls [frames]:
  "calm s (os_int E (Usleep n) s)" "calm s (os_int E (Nanosleep n) s)" "calm s (os_int E (Munmap a b) s)"
  "calm s (os_int E (Fopen p q) s)" "calm s (os_int E (Fwrite fp d) s)" "calm s (os_int E (Fclose fp) s)"
  "calm s (os_int E (Open p) s)" "calm s (os_int E (Close fd) s)" "calm s (os_int E (Write fd t) s)"
  "calm s (os_int E (Stat_isdir p) s)" "calm s (os_int E Pthread_create s)" "calm s (os_int E Pthread_join s)"
  "calm s (os_int E Get_nprocs s)" "calm s (os_int E Sysconf_nprocs s)" "calm s (os_int E (Cpu_alloc n) s)"
  "calm s (os_int E (Sched_setaffinity pid S) s)" "calm s (os_int E (Ptrace_detach pid) s)"
  "calm s (os_int E (Kill pid SIG0) s)" "calm s (os_int E (Closedir p) s)" "calm s (os_int E (Fputs_stderr t) s)"
  by (simp_all add: calm_os_int)

lemma calm_asks [frames]:
  "calm s (ask f (OS Getcwd) s)" "calm s (ask f (OS (Mmap n)) s)" "calm s (ask f (OS (Mremap a b c)) s)"
  "calm s (ask f (OS (Read fd n)) s)" "calm s (ask f (OS (Read_text p)) s)" "calm s (ask f (OS (Opendir p)) s)"
  "calm s (ask f (OS (Mmap_file fd n pos)) s)" "calm s (ask f (OS (Sched_getaffinity pid)) s)"
  "calm s (ask f (OS (Waitpid pid)) s)"
  by (simp_all add: calm_ask)

section \<open>The procedures are calm\<close>

lemma calm_flush [frames]: "calm s (cs_etb_flush_and_wait_stop E dv s)"
  unfolding cs_etb_flush_and_wait_stop_def by (intro frames)

lemma calm_show_etm_config [frames]: "calm s (show_etm_config E etm s)"
  unfolding show_etm_config_def by (intro frames)

lemma calm_configure_etmv4 [frames]: "calm s (configure_etmv4_addr_range_cid E v etm rng n cid s)"
  unfolding configure_etmv4_addr_range_cid_def by (intro frames)

lemma calm_init_etm [frames]: "calm s (init_etm E dev s)"
  unfolding init_etm_def by (intro frames)

lemma calm_configure_sources [frames]: "calm s (configure_sources E ids dv s)"
proof (induction ids arbitrary: dv s)
  case (Cons i ids)
  show ?case unfolding configure_sources.simps by (intro frames Cons)
qed (simp add: calm_Some)

lemma calm_configure_etms [frames]: "calm s (configure_etms E v ids dv rng n pid s)"
proof (induction ids arbitrary: s)
  case (Cons i ids)
  show ?case unfolding configure_etms.simps by (intro frames Cons)
qed (simp add: calm_Some)

lemma calm_configure_trace [frames]: "calm s (configure_trace E v b dv rng n pid s)"
  unfolding configure_trace_def by (cases b; cases dv; simp only: prod.case option.case) (intro frames)+

lemma calm_enable_etfs [frames]: "calm s (enable_etfs E ids dv s)"
proof (induction ids arbitrary: s)
  case (Cons i ids)
  show ?case unfolding enable_etfs.simps by (intro frames Cons)
qed (simp add: calm_Some)

lemma calm_for_each_device [frames]: "calm s (for_each_device E f ds s)"
proof (induction ds arbitrary: s)
  case (Cons d ds)
  show ?case unfolding for_each_device.simps by (intro frames Cons)
qed (simp add: calm_Some)

lemma calm_enable_trace [frames]: "calm s (enable_trace E addr sz v b dv s)"
  unfolding enable_trace_def by (cases b; cases dv; simp only: prod.case option.case) (intro frames)+

lemma calm_show_etm_configs [frames]: "calm s (show_etm_configs E ds s)"
proof (induction ds arbitrary: s)
  case (Cons d ds)
  show ?case unfolding show_etm_configs.simps by (intro frames Cons)
qed (simp add: calm_Some)

lemma calm_disable_trace [frames]: "calm s (disable_trace E v b dv s)"
  unfolding disable_trace_def by (cases b; cases dv; simp only: prod.case option.case) (intro frames)+

lemma calm_enable_trace_sinks_only [frames]: "calm s (enable_trace_sinks_only E b dv s)"
  unfolding enable_trace_sinks_only_def by (intro frames)

lemma calm_disable_trace_sinks_only [frames]: "calm s (disable_trace_sinks_only E dv s)"
  unfolding disable_trace_sinks_only_def by (intro frames)

lemma calm_is_dir [frames]: "calm s (is_dir E p s)"
  unfolding is_dir_def by (intro frames)

lemma calm_read_attr [frames]: "calm s (read_attr E p scan old s)"
  unfolding read_attr_def by (intro frames calm_option_bind)

lemma calm_get_udmabuf_info [frames]: "calm s (get_udmabuf_info E k addr sz s)"
  unfolding get_udmabuf_info_def by (intro frames)

lemma calm_get_ksight_info [frames]: "calm s (get_ksight_info E addr s)"
  unfolding get_ksight_info_def by (intro frames)

lemma calm_write_attr [frames]: "calm s (write_attr E name v s)"
  unfolding write_attr_def by (intro frames)

lemma calm_ksight_set [frames]: "calm s (ksight_set_traced_pid E pid s)" "calm s (ksight_set_enable E en s)"
  unfolding ksight_set_traced_pid_def ksight_set_enable_def by (intro frames)+

lemma calm_alloc_cpu_set [frames]: "calm s (alloc_cpu_set E s)"
  unfolding alloc_cpu_set_def by (intro frames)

lemma calm_set_cpu_affinity [frames]: "calm s (set_cpu_affinity E cpu pid s)"
  unfolding set_cpu_affinity_def by (intro frames)

lemma calm_scan_tasks [frames]: "calm s (scan_tasks E p ts U s)"
proof (induction ts arbitrary: U s)
  case (Cons t ts)
  show ?case unfolding scan_tasks.simps by (intro frames Cons)
qed (simp add: calm_Some)

lemma calm_scan_procs [frames]: "calm s (scan_procs E ps U s)"
proof (induction ps arbitrary: U s)
  case (Cons p ps)
  show ?case unfolding scan_procs.simps by (intro frames Cons)
qed (simp add: calm_Some)

lemma calm_find_free_cpu [frames]: "calm s (find_free_cpu E s)"
  unfolding find_free_cpu_def by (intro frames calm_option_bind)

lemma calm_set_core_cpus [frames]: "calm s (set_core_cpus E cpu S n s)"
  unfolding set_core_cpus_def by (intro frames)

lemma calm_collect_siblings [frames]: "calm s (collect_siblings E ids n S m C s)"
proof (induction ids arbitrary: C s)
  case (Cons i ids)
  show ?case unfolding collect_siblings.simps by (intro frames Cons)
qed (simp add: calm_Some)

lemma calm_get_preferred_cpu [frames]: "calm s (get_preferred_cpu E pid s)"
  unfolding get_preferred_cpu_def by (intro frames)

lemma calm_map_regions [frames]: "calm s (map_regions E ids mi s)"
proof (induction ids arbitrary: mi s)
  case (Cons i ids)
  show ?case unfolding map_regions.simps by (intro frames Cons)
qed (simp add: calm_Some)

lemma calm_setup_map_info [frames]: "calm s (setup_map_info E v pid mi n s)"
  unfolding setup_map_info_def by (intro frames)

lemma machine_updates [simp]:
  "machine (s\<lparr>trace_buf := a\<rparr>) = machine s" "machine (s\<lparr>ksight_buf := a\<rparr>) = machine s"
  "machine (s\<lparr>devices := d\<rparr>) = machine s" "machine (s\<lparr>is_first_trace := i\<rparr>) = machine s"
  "machine (s\<lparr>trace_cpu := n\<rparr>) = machine s" "machine (s\<lparr>etr_ram_addr := w\<rparr>) = machine s"
  "machine (s\<lparr>etr_ram_size := w\<rparr>) = machine s" "machine (s\<lparr>ksight_ram_addr := w\<rparr>) = machine s"
  "machine (s\<lparr>range_count := n\<rparr>) = machine s" "machine (s\<lparr>map_infos := m\<rparr>) = machine s"
  "machine (s\<lparr>board := b\<rparr>) = machine s" "machine (s\<lparr>trace_id := n\<rparr>) = machine s"
  "machine (s\<lparr>child_pid := n\<rparr>) = machine s" "machine (s\<lparr>fetcher_ready := i\<rparr>) = machine s"
  by (simp_all add: machine_def)

lemma calm_grow_trace_buf [frames]:
  fixes s :: "'z globals_scheme"
  shows "calm s (grow_trace_buf E len b s)"
proof -
  have "calm_to s (snd y)" if ret: "grow_trace_buf E len b s = Some y" for y
  proof (rule grow_trace_buf.raw_induct [where P = "\<lambda>E len b s y. calm_to (s :: 'z globals_scheme) (snd y)", OF _ ret])
    fix f E len b and s :: "'z globals_scheme" and y
    assume IH: "\<And>E len b s y. f E len b s = Some y \<Longrightarrow> calm_to s (snd y)"
      and eq: "(if size_t_of_int len > buf_remain b then do {
        (new_buf, s) \<leftarrow> ask (a_u64 E) (OS (Mremap (buf b) (buf_size b) (buf_size b * 2))) s;
        if new_buf = MAP_FAILED then Some ((False, b), s)
        else f E len (remap new_buf (buf_size b * 2) b) s
      } else Some ((True, b), s)) = Some y"
    have "calm s (f E len b s)" for E len b and s :: "'z globals_scheme"
      using IH by (auto simp: calm_def ensures_def)
    then have "calm s (if size_t_of_int len > buf_remain b then do {
        (new_buf, s) \<leftarrow> ask (a_u64 E) (OS (Mremap (buf b) (buf_size b) (buf_size b * 2))) s;
        if new_buf = MAP_FAILED then Some ((False, b), s)
        else f E len (remap new_buf (buf_size b * 2) b) s
      } else Some ((True, b), s))" by (intro frames)
    with eq show "calm_to s (snd y)" by (cases y) (simp add: calm_def)
  qed
  then show ?thesis by (fastforce simp: calm_def ensures_def)
qed

lemma calm_fetch_trace [frames]: "calm s (fetch_trace E s)"
  unfolding fetch_trace_def by (intro frames calm_option_bind calm_end) simp_all

lemma calm_expand_ksight_buf [frames]: "calm s (expand_ksight_buf E b s)"
  unfolding expand_ksight_buf_def by (intro frames)

lemma calm_ksight_read_loop [frames]:
  fixes s :: "'z globals_scheme"
  shows "calm s (ksight_read_loop E fd b s)"
proof -
  have "calm_to s (snd y)" if ret: "ksight_read_loop E fd b s = Some y" for y
  proof (rule ksight_read_loop.raw_induct [where P = "\<lambda>E fd b s y. calm_to (s :: 'z globals_scheme) (snd y)", OF _ ret])
    fix f E fd b and s :: "'z globals_scheme" and y
    let ?body = "do {
     ((ok, b), s) \<leftarrow> expand_ksight_buf E b s;
     if \<not> ok then Some ((-1, b), s)
     else do {
       ((n, data), s) \<leftarrow> ask (a_bytes E) (OS (Read fd (buf_remain b))) s;
       if n < 0 then
         if a_errno E (hist s) = EAGAIN \<or> a_errno E (hist s) = EWOULDBLOCK then Some ((0, b), s)
         else Some ((-1, b), s)
       else if n = 0 then Some ((0, b), s)
       else do {
         b \<leftarrow> store_bytes data b;
         f E fd (b\<lparr>buf_ptr := buf_ptr b + word_of_int n\<rparr>) s
       }
     }
   }"
    assume IH: "\<And>E fd b s y. f E fd b s = Some y \<Longrightarrow> calm_to s (snd y)" and eq: "?body = Some y"
    have "calm s (f E fd b s)" for E fd b and s :: "'z globals_scheme"
      using IH by (auto simp: calm_def ensures_def)
    then have "calm s ?body" by (intro frames calm_option_bind)
    with eq show "calm_to s (snd y)" by (cases y) (simp add: calm_def)
  qed
  then show ?thesis by (fastforce simp: calm_def ensures_def)
qed

lemma calm_fetch_ksight_events [frames]: "calm s (fetch_ksight_events E s)"
  unfolding fetch_ksight_events_def by (intro frames calm_end) simp_all

lemma calm_export_trace [frames]: "calm s (export_trace E name s)" "calm s (export_ksight E name s)"
  unfolding export_trace_def export_ksight_def export_buf_def by (intro frames calm_option_bind)+

lemma calm_free_bufs [frames]: "calm s (free_trace_buf E s)" "calm s (free_ksight_buf E s)"
  unfolding free_trace_buf_def free_ksight_buf_def by (intro frames calm_end; simp)+

lemma calm_alloc_bufs [frames]: "calm s (alloc_trace_buf E s)" "calm s (alloc_ksight_buf E s)"
  unfolding alloc_trace_buf_def alloc_ksight_buf_def by (intro frames calm_end; simp)+

lemma calm_fini_export [frames]: "calm s (fini_export E s)"
  unfolding fini_export_def by (intro frames)

lemma calm_enable_trace_devices: "calm s (enable_trace E addr sz v b dv (s\<lparr>devices := d\<rparr>))"
  by (rule calm_like [OF _ _ calm_enable_trace]) simp_all

lemma calm_enable_first [frames]: "calm s (enable_first E pid s)"
  unfolding enable_first_def Let_def
  by (intro frames calm_enable_trace_devices calm_end) simp_all

lemma calm_enable_cs_trace [frames]: "calm s (enable_cs_trace E pid s)"
  unfolding enable_cs_trace_def enable_again_def by (intro frames)

lemma calm_retry: "(\<And>t. calm t (op t)) \<Longrightarrow> calm s (retry E op n ret s)"
proof (induction n arbitrary: ret s)
  case (Suc n)
  show ?case unfolding retry.simps by (intro frames Suc)
qed (simp add: calm_Some)

lemma calm_disable_cs_trace [frames]: "calm s (disable_cs_trace E all s)"
  unfolding disable_cs_trace_def by (intro calm_retry frames)

text \<open>The steps of \<open>init_trace\<close> before the last, and those of \<open>start_trace\<close> before the last.\<close>

lemma calm_choose_cpu [frames]: "calm s (choose_cpu E p s)"
  unfolding choose_cpu_def by (intro frames calm_end) simp_all

lemma calm_init_parts [frames]:
  "calm s (init_udmabuf E s)" "calm s (init_ksight E s)" "calm s (init_maps E v pid s)" "calm s (init_board E s)"
  unfolding init_udmabuf_def init_ksight_def init_maps_def init_board_def by (intro frames calm_end; simp)+

text \<open>Like calm, but a success may also have moved the state machine by the given function.\<close>

definition moves :: "(globals \<Rightarrow> globals) \<Rightarrow> globals \<Rightarrow> (int \<times> globals) option \<Rightarrow> bool" where
  "moves f s m = ensures m (\<lambda>r s'. calm_to s s' \<or> r = 0 \<and> (\<exists>t. calm_to s t \<and> s' = f t))"

lemma moves_calm: "calm s m \<Longrightarrow> moves f s m"
  by (auto simp: moves_def calm_def ensures_def)

lemma moves_bind:
  assumes "calm s m" and "\<And>r s'. m = Some (r, s') \<Longrightarrow> moves f s' (g r s')"
  shows "moves f s (m \<bind> (\<lambda>(r, s'). g r s'))"
  unfolding moves_def
proof (rule ensuresI)
  fix r s' assume "m \<bind> (\<lambda>(r, s'). g r s') = Some (r, s')"
  then obtain a s1 where m: "m = Some (a, s1)" and g: "g a s1 = Some (r, s')" by (auto simp: bind_eq_Some_conv)
  have "calm_to s1 s' \<or> r = 0 \<and> (\<exists>t. calm_to s1 t \<and> s' = f t)"
    using ensuresD [OF assms(2) [OF m, unfolded moves_def] g] .
  then show "calm_to s s' \<or> r = 0 \<and> (\<exists>t. calm_to s t \<and> s' = f t)"
    using calm_to_trans [OF calmD [OF assms(1) m]] by blast
qed

lemma moves_if: "(b \<Longrightarrow> moves f s m) \<Longrightarrow> (\<not> b \<Longrightarrow> moves f s m') \<Longrightarrow> moves f s (if b then m else m')"
  by simp

lemma moves_end: "calm_to s t \<Longrightarrow> moves f s (Some (0, f t))"
  by (auto simp: moves_def)

lemma init_trace_moves: "moves (set_trace_state ready_state) s (init_trace E v ppid pid s)"
proof -
  have ready: "moves (set_trace_state ready_state) s (init_ready E s)" for s
    unfolding init_ready_def Let_def
    by (intro moves_bind moves_if moves_end calm_to_same frames moves_calm calm_end) simp_all
  have steps: "moves (set_trace_state ready_state) s (init_steps E v ppid pid s)"
    unfolding init_steps_def by (intro moves_bind moves_if ready frames moves_calm)
  show ?thesis
  proof (unfold moves_def, rule ensuresI)
    fix r s' assume "init_trace E v ppid pid s = Some (r, s')"
    then obtain s1 where i: "init_steps E v ppid pid s = Some (r, s1)"
      and s': "s' = (if r \<noteq> 0 then s1\<lparr>hist := hist s1 @ [CS Cs_shutdown]\<rparr> else s1)"
      by (auto simp: init_trace_def bind_eq_Some_conv ask_defs split: if_splits)
    have "calm_to s1 (s1\<lparr>hist := hist s1 @ [CS Cs_shutdown]\<rparr>)" by (simp add: calm_to_def)
    with steps i s' show "calm_to s s' \<or> r = 0 \<and> (\<exists>t. calm_to s t \<and> s' = set_trace_state ready_state t)"
      by (auto simp: moves_def ensures_def intro: calm_to_trans)
  qed
qed

lemma enable_running_moves:
  "moves (set_trace_state running_state) s
     (do {(ret, s) \<leftarrow> enable_cs_trace E p (s\<lparr>child_pid := q\<rparr>);
          if ret < 0 then Some (ret, s) else Some (ret, set_trace_state running_state s)})"
proof (unfold moves_def, rule ensuresI)
  fix r s' assume "do {(ret, s) \<leftarrow> enable_cs_trace E p (s\<lparr>child_pid := q\<rparr>);
      if ret < 0 then Some (ret, s) else Some (ret, set_trace_state running_state s)} = Some (r, s')"
  then obtain t where e: "enable_cs_trace E p (s\<lparr>child_pid := q\<rparr>) = Some (r, t)"
    and s': "s' = (if r < 0 then t else set_trace_state running_state t)"
    by (auto simp: bind_eq_Some_conv split: if_splits)
  have "calm_to s t"
    by (rule calm_to_trans [OF _ calmD [OF calm_enable_cs_trace e]]) (simp add: calm_to_same)
  with s' enable_cs_trace_frame [OF e]
  show "calm_to s s' \<or> r = 0 \<and> (\<exists>t. calm_to s t \<and> s' = set_trace_state running_state t)" by auto
qed

text \<open>The part of \<open>start_trace\<close> after the binding to a CPU.\<close>

lemma start_rest_moves:
  "moves (set_trace_state running_state) s
     (do {
       (_, s) \<leftarrow> alloc_trace_buf E s;
       (_, s) \<leftarrow> (if ksight_on s then alloc_ksight_buf E s else Some (0, s));
       let s = s\<lparr>child_pid := pid\<rparr>;
       (ret, s) \<leftarrow> enable_cs_trace E p s;
       if ret < 0 then Some (ret, s) else Some (ret, set_trace_state running_state s)
     })"
  unfolding Let_def by (intro moves_bind moves_if enable_running_moves frames moves_calm)

lemma start_trace_moves: "moves (set_trace_state running_state) s (start_trace E pid use s)"
  unfolding start_trace_def by (intro moves_bind moves_if start_rest_moves frames moves_calm)

end
