(* ===== verification/Fetcher.thy ===== *)
theory Fetcher
  imports Calm
begin

text \<open>
  The two threads of the tracer: the main thread in \<open>parent\<close> (\<open>src/cs-trace.c\<close>) and the fetcher thread
  in \<open>fetcher_worker\<close> and \<open>trace_sink_polling\<close> (\<open>src/common.c\<close>), as an interleaving of steps over the shared
  variables. A step is a stretch of code between two points where the thread may wait or another thread
  may get the lock; the location of each thread is part of the state. \<open>waitpid\<close>, the signals and the
  position of the trace sink are answers of the environment.
\<close>

section \<open>The fetcher thread\<close>

text \<open>The choice of the threshold at the start of \<open>fetcher_worker\<close>.\<close>

definition fetch_threshold :: "env \<Rightarrow> 'z globals_scheme \<Rightarrow> (u64 \<times> 'z globals_scheme) option" where
  "fetch_threshold E s = do {
     (_, s) \<leftarrow> (if etr_ram_size s = 0 then do {
          (n, s) \<leftarrow> ask (a_u64 E) (CS (Cs_get_buffer_size_bytes (etb (devices s)))) s;
          Some ((), s\<lparr>etr_ram_size := n\<rparr>)
        } else Some ((), s));
     if trace_sinks (devices s) 0 \<noteq> 0 then do {
       (etf_ram_size, s) \<leftarrow> ask (a_u64 E) (CS (Cs_get_buffer_size_bytes (trace_sinks (devices s) 0))) s;
       Some (if etf_ram_size < etr_ram_size s then etf_ram_size * 2 else etr_ram_size s, s)
     } else Some (etr_ram_size s, s)
   }"

definition buffer_rwp :: "env \<Rightarrow> 'z globals_scheme \<Rightarrow> (u64 \<times> 'z globals_scheme) option" where
  "buffer_rwp E s = ask (a_u64 E) (CS (Cs_get_buffer_rwp (etb (devices s)))) s"

text \<open>The locations of the fetcher, with the values of its local variables where they are live: the threshold and
  the position from which the sink is filled.\<close>

datatype floc =
    F_none
  | F_start
  | F_worker u64
  | F_enter u64
  | F_poll u64 u64
  | F_stop_child u64
  | F_wait_suspend u64
  | F_disable u64
  | F_fetch u64
  | F_enable u64
  | F_continue u64
  | F_wait_resume u64
  | F_reset u64
  | F_sleep u64 u64
  | F_killed u64
  | F_last u64
  | F_exit u64
  | F_done

definition ESRCH :: int where "ESRCH = 3"

text \<open>The condition on which \<open>wait_trace_event\<close> stops waiting.\<close>

definition wait_trace_event :: "trace_event_t \<Rightarrow> 'z trace_vars_scheme \<Rightarrow> bool" where
  [simp]: "wait_trace_event event s \<longleftrightarrow> trace_event s = event"

inductive fstep :: "env \<Rightarrow> floc \<Rightarrow> globals \<Rightarrow> floc \<Rightarrow> globals \<Rightarrow> bool" for E :: env where
  f_start: "fetch_threshold E s = Some (n, s') \<Longrightarrow> fstep E F_start s (F_worker n) s'"
| f_worker_start: "trace_event s = start_event \<Longrightarrow> fstep E (F_worker n) s (F_enter n) s"
| f_worker_fini: "trace_event s = fini_event \<Longrightarrow> fstep E (F_worker n) s F_done s"
| f_enter: "buffer_rwp E s = Some (pos, s') \<Longrightarrow> fstep E (F_enter n) s (F_poll n pos) s'"
| f_poll_gone: "os_int E (Kill (child_pid s) SIG0) s = Some (r, s') \<Longrightarrow> r \<noteq> 0 \<Longrightarrow> fstep E (F_poll n pos) s (F_killed n) s'"
| f_poll_reached: "os_int E (Kill (child_pid s) SIG0) s = Some (0, s1) \<Longrightarrow> buffer_rwp E s1 = Some (rwp, s') \<Longrightarrow>
    rwp - pos > n \<Longrightarrow> fstep E (F_poll n pos) s (F_stop_child n) s'"
| f_poll_below: "os_int E (Kill (child_pid s) SIG0) s = Some (0, s1) \<Longrightarrow> buffer_rwp E s1 = Some (rwp, s') \<Longrightarrow>
    \<not> rwp - pos > n \<Longrightarrow> fstep E (F_poll n pos) s (F_sleep n pos) s'"
| f_stop_child: "os_int E (Kill (child_pid s) SIGSTOP) s = Some (r, s') \<Longrightarrow>
    fstep E (F_stop_child n) s (if r < 0 then F_killed n else F_wait_suspend n) s'"
| f_wait_suspend: "wait_trace_event suspend_event s \<Longrightarrow> fstep E (F_wait_suspend n) s (F_disable n) s"
| f_disable: "disable_cs_trace E False s = Some (r, s') \<Longrightarrow>
    fstep E (F_disable n) s (if r < 0 then F_exit n else F_fetch n) s'"
| f_fetch: "fetch_trace E s = Some (r, s') \<Longrightarrow> fstep E (F_fetch n) s (if r < 0 then F_exit n else F_enable n) s'"
| f_enable: "enable_cs_trace E (child_pid s) s = Some (r, s') \<Longrightarrow>
    fstep E (F_enable n) s (if r < 0 then F_exit n else F_continue n) s'"
| f_continue: "os_int E (Kill (child_pid s) SIGCONT) s = Some (r, s') \<Longrightarrow>
    fstep E (F_continue n) s
      (if \<not> r < 0 then F_wait_resume n else if a_errno E (hist s') = ESRCH then F_killed n else F_exit n) s'"
| f_wait_resume: "wait_trace_event resume_event s \<Longrightarrow> fstep E (F_wait_resume n) s (F_reset n) s"
| f_reset: "buffer_rwp E s = Some (pos, s') \<Longrightarrow> fstep E (F_reset n) s (F_sleep n pos) s'"
| f_sleep: "os_int E (Nanosleep 100000000) s = Some (r, s') \<Longrightarrow> fstep E (F_sleep n pos) s (F_poll n pos) s'"
| f_killed: "trace_event s = stop_event \<or> trace_event s = fini_event \<Longrightarrow> fstep E (F_killed n) s (F_last n) s"
| f_last: "fetch_trace E s = Some (r, s') \<Longrightarrow> fstep E (F_last n) s (F_exit n) s'"
| f_exit: "fstep E (F_exit n) s (F_worker n) (s\<lparr>fetcher_ready := True\<rparr>)"

section \<open>The main thread\<close>

definition ksight_begin :: "env \<Rightarrow> int \<Rightarrow> 'z globals_scheme \<Rightarrow> (unit \<times> 'z globals_scheme) option" where
  "ksight_begin E pid s = do {
     (_, s) \<leftarrow> (if ksight_on s then do {
          (_, s) \<leftarrow> ksight_set_traced_pid E pid s;
          ksight_set_enable E 1 s
        } else Some (0, s));
     (_, s) \<leftarrow> os_int E (Ptrace_detach pid) s;
     Some ((), s)
   }"

definition ksight_end :: "env \<Rightarrow> 'z globals_scheme \<Rightarrow> (int \<times> 'z globals_scheme) option" where
  "ksight_end E s =
     (if ksight_on s then do {
        (_, s) \<leftarrow> ksight_set_enable E 0 s;
        ksight_set_traced_pid E 0 s
      } else Some (0, s))"

datatype mloc = M_first | M_init | M_start | M_setup | M_loop | M_ksight | M_stop | M_ready | M_fini | M_join | M_export | M_done

definition waitpid :: "env \<Rightarrow> int \<Rightarrow> 'z globals_scheme \<Rightarrow> (wait_status \<times> 'z globals_scheme) option" where
  "waitpid E pid s = ask (a_wait E) (OS (Waitpid pid)) s"

text \<open>The body of the loop after \<open>waitpid\<close>.\<close>

definition handle_status :: "wait_status \<Rightarrow> 'z globals_scheme \<Rightarrow> mloc \<times> 'z globals_scheme" where
  "handle_status w s = (case w of
       Exited n \<Rightarrow> if n = 0 then (M_ksight, s) else (M_loop, s)
     | Continued \<Rightarrow> (M_loop, s)
     | Stopped sg \<Rightarrow>
         if fetcher_on s then
           if sg = Stop_SIGSTOP then (M_loop, trace_suspend_callback s)
           else if sg = Stop_SIGCONT then (M_loop, trace_resume_callback s)
           else (M_loop, s)
         else (M_loop, s)
     | Signaled \<Rightarrow> (M_loop, s))"

record tracer =
  main :: mloc
  fetcher :: floc
  vars :: globals

text \<open>One step of the tracer: of the main thread, or of the fetcher.\<close>

inductive tstep :: "env \<Rightarrow> map_locals \<Rightarrow> int \<Rightarrow> int \<Rightarrow> tracer \<Rightarrow> tracer \<Rightarrow> bool"
  for E :: env and v :: map_locals and ppid pid :: int where
  t_first: "waitpid E pid s = Some (w, s') \<Longrightarrow>
    tstep E v ppid pid \<lparr>main = M_first, fetcher = f, vars = s\<rparr>
      \<lparr>main = (if w = Stopped Stop_SIGTRAP then M_init else M_loop), fetcher = f, vars = s'\<rparr>"
| t_init: "init_trace E v ppid pid s = Some (r, s') \<Longrightarrow>
    tstep E v ppid pid \<lparr>main = M_init, fetcher = f, vars = s\<rparr>
      \<lparr>main = M_start, fetcher = (if fetcher_on s \<and> r = 0 then F_start else f), vars = s'\<rparr>"
| t_start: "start_trace E pid True s = Some (r, s') \<Longrightarrow>
    tstep E v ppid pid \<lparr>main = M_start, fetcher = f, vars = s\<rparr> \<lparr>main = M_setup, fetcher = f, vars = s'\<rparr>"
| t_setup: "ksight_begin E pid s = Some (u, s') \<Longrightarrow>
    tstep E v ppid pid \<lparr>main = M_setup, fetcher = f, vars = s\<rparr> \<lparr>main = M_loop, fetcher = f, vars = s'\<rparr>"
| t_loop: "waitpid E pid s = Some (w, s1) \<Longrightarrow> handle_status w s1 = (m, s') \<Longrightarrow>
    tstep E v ppid pid \<lparr>main = M_loop, fetcher = f, vars = s\<rparr> \<lparr>main = m, fetcher = f, vars = s'\<rparr>"
| t_ksight: "ksight_end E s = Some (r, s') \<Longrightarrow>
    tstep E v ppid pid \<lparr>main = M_ksight, fetcher = f, vars = s\<rparr> \<lparr>main = M_stop, fetcher = f, vars = s'\<rparr>"
| t_stop: "disable_cs_trace E True s = Some (r, s') \<Longrightarrow>
    tstep E v ppid pid \<lparr>main = M_stop, fetcher = f, vars = s\<rparr>
      \<lparr>main = (if r < 0 then M_fini else M_ready), fetcher = f, vars = s'\<rparr>"
| t_ready: "tstep E v ppid pid \<lparr>main = M_ready, fetcher = f, vars = s\<rparr>
      \<lparr>main = M_fini, fetcher = f, vars = set_trace_state ready_state s\<rparr>"
| t_fini_fetcher: "fetcher_on s \<Longrightarrow>
    tstep E v ppid pid \<lparr>main = M_fini, fetcher = f, vars = s\<rparr>
      \<lparr>main = M_join, fetcher = f, vars = set_trace_state fini_state s\<rparr>"
| t_fini_fetch: "\<not> fetcher_on s \<Longrightarrow> fetch_trace E s = Some (r, s') \<Longrightarrow>
    tstep E v ppid pid \<lparr>main = M_fini, fetcher = f, vars = s\<rparr> \<lparr>main = M_export, fetcher = f, vars = s'\<rparr>"
| t_join: "os_int E Pthread_join s = Some (r, s') \<Longrightarrow>
    tstep E v ppid pid \<lparr>main = M_join, fetcher = F_done, vars = s\<rparr> \<lparr>main = M_export, fetcher = F_done, vars = s'\<rparr>"
| t_export: "fini_export E s = Some (u, s') \<Longrightarrow>
    tstep E v ppid pid \<lparr>main = M_export, fetcher = f, vars = s\<rparr> \<lparr>main = M_done, fetcher = f, vars = s'\<rparr>"
| t_fetcher: "fstep E f s f' s' \<Longrightarrow>
    tstep E v ppid pid \<lparr>main = m, fetcher = f, vars = s\<rparr> \<lparr>main = m, fetcher = f', vars = s'\<rparr>"

inductive_cases fstep_E: "fstep E f s f' s'"
inductive_cases tstep_E: "tstep E v ppid pid st st'"

text \<open>The states that the tracer can reach from program start, with the options set.\<close>

inductive reachable :: "env \<Rightarrow> map_locals \<Rightarrow> int \<Rightarrow> int \<Rightarrow> globals \<Rightarrow> tracer \<Rightarrow> bool"
  for E :: env and v :: map_locals and ppid pid :: int and s0 :: globals where
  r_init: "reachable E v ppid pid s0 \<lparr>main = M_first, fetcher = F_none, vars = s0\<rparr>"
| r_step: "reachable E v ppid pid s0 st \<Longrightarrow> tstep E v ppid pid st st' \<Longrightarrow> reachable E v ppid pid s0 st'"

section \<open>Calm steps\<close>

lemma calm_fetch_threshold [frames]: "calm s (fetch_threshold E s)"
  unfolding fetch_threshold_def by (intro frames calm_end) simp_all

lemma calm_buffer_rwp [frames]: "calm s (buffer_rwp E s)"
  unfolding buffer_rwp_def by (intro frames)

lemma calm_ksight_begin [frames]: "calm s (ksight_begin E pid s)" "calm s (ksight_end E s)"
  unfolding ksight_begin_def ksight_end_def by (intro frames)+

lemma calm_waitpid [frames]: "calm s (waitpid E pid s)"
  unfolding waitpid_def by (intro frames)

section \<open>Invariants of the fetcher's steps\<close>

lemmas calm_op_machine = calmD [THEN calm_toD, THEN conjunct1]

lemma machine_eq_iff:
  "machine s' = machine s \<longleftrightarrow> trace_state s' = trace_state s \<and> trace_event s' = trace_event s \<and> fetcher_on s' = fetcher_on s"
  by (auto simp: machine_def)

text \<open>The fetcher never moves the state machine.\<close>

lemma fstep_machine: "fstep E f s f' s' \<Longrightarrow> machine s' = machine s"
proof (induction rule: fstep.induct)
  case (f_poll_reached s s1 rwp s' pos n)
  from calm_op_machine [OF calm_calls(18) this(1)] calm_op_machine [OF calm_buffer_rwp this(2)] show ?case by simp
next
  case (f_poll_below s s1 rwp s' pos n)
  from calm_op_machine [OF calm_calls(18) this(1)] calm_op_machine [OF calm_buffer_rwp this(2)] show ?case by simp
qed (auto simp: os_int_def ask_def
    dest: calm_op_machine [OF calm_fetch_threshold] calm_op_machine [OF calm_buffer_rwp]
      calm_op_machine [OF calm_disable_cs_trace] calm_op_machine [OF calm_fetch_trace]
      calm_op_machine [OF calm_enable_cs_trace])

text \<open>The locations between the stop and the continuation of the child.\<close>

fun holds_child :: "floc \<Rightarrow> bool" where
  "holds_child (F_wait_suspend n) = True"
| "holds_child (F_disable n) = True"
| "holds_child (F_fetch n) = True"
| "holds_child (F_enable n) = True"
| "holds_child (F_continue n) = True"
| "holds_child _ = False"

lemma fstep_stopped:
  "fstep E f s f' s' \<Longrightarrow> (holds_child f \<longrightarrow> stopped (hist s)) \<Longrightarrow> (holds_child f' \<longrightarrow> stopped (hist s'))"
  by (induction rule: fstep.induct)
    (auto simp: os_int_def ask_def
      dest!: calmD [OF calm_disable_cs_trace, THEN calm_toD] calmD [OF calm_fetch_trace, THEN calm_toD]
        calmD [OF calm_enable_cs_trace, THEN calm_toD])

text \<open>The locations where the fetcher relies on a reported stop of the child, and those where it has none unless the
  last event says so.\<close>

fun uses_child_stop :: "floc \<Rightarrow> bool" where
  "uses_child_stop (F_disable n) = True"
| "uses_child_stop (F_fetch n) = True"
| "uses_child_stop (F_enable n) = True"
| "uses_child_stop (F_continue n) = True"
| "uses_child_stop _ = False"

fun polls_child :: "floc \<Rightarrow> bool" where
  "polls_child (F_enter n) = True"
| "polls_child (F_poll n pos) = True"
| "polls_child (F_stop_child n) = True"
| "polls_child (F_wait_suspend n) = True"
| "polls_child (F_reset n) = True"
| "polls_child (F_sleep n pos) = True"
| "polls_child _ = False"

definition stop_reported :: "env \<Rightarrow> int \<Rightarrow> floc \<Rightarrow> globals \<Rightarrow> bool" where
  "stop_reported E pid f s \<longleftrightarrow> (uses_child_stop f \<or> polls_child f \<and> trace_event s = suspend_event \<longrightarrow> halted E pid (hist s))"

lemma stop_reported_calm:
  "calm_to s s' \<Longrightarrow> stop_reported E pid f s \<Longrightarrow> (uses_child_stop f' \<longrightarrow> uses_child_stop f) \<Longrightarrow>
   (polls_child f' \<longrightarrow> polls_child f \<or> uses_child_stop f) \<Longrightarrow> stop_reported E pid f' s'"
  using calm_toD [of s s'] by (auto simp: stop_reported_def machine_def intro: calm_to_halted)

lemma fstep_stop_reported:
  assumes "fstep E f s f' s'" and "stop_reported E pid f s"
  shows "stop_reported E pid f' s'"
  using assms
proof (induction rule: fstep.induct)
  case (f_poll_reached s s1 rwp s' pos n)
  from calm_to_trans [OF calmD [OF calm_calls(18) this(1)] calmD [OF calm_buffer_rwp this(2)]] f_poll_reached(4)
  show ?case by (rule stop_reported_calm) simp_all
next
  case (f_poll_below s s1 rwp s' pos n)
  from calm_to_trans [OF calmD [OF calm_calls(18) this(1)] calmD [OF calm_buffer_rwp this(2)]] f_poll_below(4)
  show ?case by (rule stop_reported_calm) simp_all
next
  case (f_enter s pos s' n)
  from calmD [OF calm_buffer_rwp this(1)] this(2) show ?case by (rule stop_reported_calm) simp_all
next
  case (f_reset s pos s' n)
  from calmD [OF calm_buffer_rwp this(1)] this(2) show ?case by (rule stop_reported_calm) simp_all
next
  case (f_sleep s r s' n pos)
  from calmD [OF calm_calls(2) this(1)] this(2) show ?case by (rule stop_reported_calm) simp_all
next
  case (f_disable s r s' n)
  from calmD [OF calm_disable_cs_trace this(1)] this(2) show ?case by (rule stop_reported_calm) simp_all
next
  case (f_fetch s r s' n)
  from calmD [OF calm_fetch_trace this(1)] this(2) show ?case by (rule stop_reported_calm) simp_all
next
  case (f_enable s r s' n)
  from calmD [OF calm_enable_cs_trace this(1)] this(2) show ?case by (rule stop_reported_calm) simp_all
qed (auto simp: stop_reported_def os_int_def ask_def intro: halted_append)

section \<open>Invariants of the tracer\<close>

lemma machine_fields: "machine s' = machine s \<Longrightarrow> trace_state s' = trace_state s"
  "machine s' = machine s \<Longrightarrow> trace_event s' = trace_event s" "machine s' = machine s \<Longrightarrow> fetcher_on s' = fetcher_on s"
  by (simp_all add: machine_def)

text \<open>What the steps of the main thread do to the state machine and to the signals sent.\<close>

inductive main_effect :: "env \<Rightarrow> int \<Rightarrow> mloc \<Rightarrow> globals \<Rightarrow> globals \<Rightarrow> bool" for E and pid where
  calm: "calm_to s s' \<Longrightarrow> main_effect E pid m s s'"
| ready: "m \<in> {M_init, M_ready} \<Longrightarrow> calm_to s t \<Longrightarrow> main_effect E pid m s (set_trace_state ready_state t)"
| running: "calm_to s t \<Longrightarrow> main_effect E pid M_start s (set_trace_state running_state t)"
| suspend: "halted E pid (hist t) \<Longrightarrow> calm_to s t \<Longrightarrow> main_effect E pid M_loop s (set_trace_state suspended_state t)"
| resume: "a_wait E h (OS (Waitpid pid)) = Stopped Stop_SIGCONT \<Longrightarrow> calm_to s t \<Longrightarrow>
    main_effect E pid M_loop s (set_trace_state running_state t)"
| fini: "calm_to s t \<Longrightarrow> main_effect E pid M_fini s (set_trace_state fini_state t)"

text \<open>The order of the main thread's locations.\<close>

fun stage :: "mloc \<Rightarrow> nat" where
  "stage M_first = 0" | "stage M_init = 1" | "stage M_start = 2" | "stage M_setup = 3" | "stage M_loop = 4"
| "stage M_ksight = 5" | "stage M_stop = 6" | "stage M_ready = 7" | "stage M_fini = 8" | "stage M_join = 9"
| "stage M_export = 10" | "stage M_done = 11"

text \<open>A step is a step of the fetcher, or one of the main thread with one of these effects.\<close>

lemma tstep_cases:
  assumes "tstep E v ppid pid st st'"
  obtains (fetcher) "fstep E (fetcher st) (vars st) (fetcher st') (vars st')" "main st' = main st"
  | (main) "main_effect E pid (main st) (vars st) (vars st')"
      "fetcher st' = fetcher st \<or> main st = M_init \<and> main st' = M_start \<and> fetcher_on (vars st) \<and> fetcher st' = F_start"
      "main st' \<in> {M_export, M_done} \<longrightarrow> main st = M_export \<or> \<not> fetcher_on (vars st) \<or> fetcher st = F_done"
      "stage (main st) < stage (main st') \<or> main st = M_loop \<and> main st' = M_loop"
proof -
  have w: "calm_to s s' \<and> a_wait E (hist s) (OS (Waitpid pid)) = w \<and> (w = Stopped Stop_SIGSTOP \<longrightarrow> halted E pid (hist s'))"
    if "waitpid E pid s = Some (w, s')" for w and s s' :: globals
    using that calmD [OF calm_waitpid that] by (auto simp: waitpid_def ask_def halted_report)
  from assms show thesis
  proof (cases rule: tstep.cases)
    case (t_init s r s' f)
    then have "calm_to s s' \<or> (\<exists>t. calm_to s t \<and> s' = set_trace_state ready_state t)"
      using init_trace_moves [of s E v ppid pid] by (auto simp: moves_def ensures_def)
    with t_init show thesis by (intro main) (auto intro: main_effect.intros)
  next
    case (t_start s r s' f)
    then have "calm_to s s' \<or> (\<exists>t. calm_to s t \<and> s' = set_trace_state running_state t)"
      using start_trace_moves [of s E pid True] by (auto simp: moves_def ensures_def)
    with t_start show thesis by (intro main) (auto intro: main_effect.intros)
  next
    case (t_loop s w s1 m s' f)
    from w [OF t_loop(3)] have s1: "calm_to s s1" "a_wait E (hist s) (OS (Waitpid pid)) = w"
      "w = Stopped Stop_SIGSTOP \<Longrightarrow> halted E pid (hist s1)" by simp_all
    have "main_effect E pid M_loop s s' \<and> (m = M_loop \<or> m = M_ksight)"
      using t_loop(4) s1
      by (auto simp: handle_status_def trace_suspend_callback_def trace_resume_callback_def
          split: wait_status.splits if_splits intro: main_effect.intros)
    with t_loop show thesis by (intro main) auto
  next
    case (t_first s w s' f)
    then show thesis using w by (intro main) (auto intro: main_effect.calm)
  next
    case (t_setup s u s' f)
    then show thesis by (intro main) (auto intro: main_effect.calm dest: calmD [OF calm_ksight_begin(1)])
  next
    case (t_ksight s r s' f)
    then show thesis by (intro main) (auto intro: main_effect.calm dest: calmD [OF calm_ksight_begin(2)])
  next
    case (t_stop s r s' f)
    then show thesis by (intro main) (auto intro: main_effect.calm dest: calmD [OF calm_disable_cs_trace])
  next
    case (t_ready f s)
    then show thesis by (intro main) (auto intro!: main_effect.ready calm_to_same)
  next
    case (t_fini_fetcher s f)
    then show thesis by (intro main) (auto intro!: main_effect.fini calm_to_same)
  next
    case (t_fini_fetch s r s' f)
    then show thesis by (intro main) (auto intro: main_effect.calm dest: calmD [OF calm_fetch_trace])
  next
    case (t_join s r s')
    then show thesis by (intro main) (auto intro: main_effect.calm dest: calmD [OF calm_calls(12)])
  next
    case (t_export s u s' f)
    then show thesis by (intro main) (auto intro: main_effect.calm dest: calmD [OF calm_fini_export])
  next
    case (t_fetcher f s f' s' m)
    then show thesis by (intro fetcher) simp_all
  qed
qed

lemma main_effect_frame:
  "main_effect E pid m s s' \<Longrightarrow> fetcher_on s' = fetcher_on s \<and> stopped (hist s') = stopped (hist s)"
  by (induction rule: main_effect.induct) (auto dest!: calm_toD machine_fields(3))

inductive_cases fstep_none: "fstep E F_none s f' s'"
inductive_cases fstep_done: "fstep E F_done s f' s'"
inductive_cases fstep_wait_resume: "fstep E (F_wait_resume n) s f' s'"

lemma fstep_not_none: "fstep E f s f' s' \<Longrightarrow> f \<noteq> F_none \<and> f \<noteq> F_done \<and> f' \<noteq> F_none"
  by (induction rule: fstep.induct) auto

text \<open>The fetcher only runs if it was asked for, and the export waits for its end.\<close>

lemma reachable_fetcher:
  "reachable E v ppid pid s0 st \<Longrightarrow> (fetcher st \<noteq> F_none \<longrightarrow> fetcher_on (vars st)) \<and>
     (main st \<in> {M_export, M_done} \<longrightarrow> fetcher st \<in> {F_none, F_done})"
proof (induction rule: reachable.induct)
  case r_init
  then show ?case by simp
next
  case (r_step st st')
  from r_step(2) show ?case
  proof (cases rule: tstep_cases)
    case fetcher
    have "fetcher_on (vars st') = fetcher_on (vars st)" by (rule machine_fields(3) [OF fstep_machine [OF fetcher(1)]])
    with fetcher(2) fstep_not_none [OF fetcher(1)] r_step(3) show ?thesis by simp
  next
    case main
    from main_effect_frame [OF main(1)] have "fetcher_on (vars st') = fetcher_on (vars st)" by simp
    with main(2-4) r_step(3) show ?thesis by (cases "main st"; cases "main st'") auto
  qed
qed

lemma init_no_fetcher: "reachable E v ppid pid s0 st \<Longrightarrow> stage (main st) \<le> 1 \<longrightarrow> fetcher st = F_none"
proof (induction rule: reachable.induct)
  case (r_step st st')
  from r_step(2) show ?case
  proof (cases rule: tstep_cases)
    case fetcher
    with fstep_not_none [OF fetcher(1)] r_step(3) show ?thesis by auto
  next
    case main
    with r_step(3) show ?thesis by (cases "main st") auto
  qed
qed simp

lemma reachable_stopped:
  "reachable E v ppid pid s0 st \<Longrightarrow> holds_child (fetcher st) \<longrightarrow> stopped (hist (vars st))"
proof (induction rule: reachable.induct)
  case (r_step st st')
  from r_step(2) show ?case
  proof (cases rule: tstep_cases)
    case fetcher
    from fstep_stopped [OF fetcher(1) r_step(3)] show ?thesis .
  next
    case main
    with main_effect_frame [OF main(1)] r_step(3) show ?thesis by auto
  qed
qed simp

lemma set_trace_state_suspend:
  "trace_event (set_trace_state st s) = suspend_event \<Longrightarrow> trace_event s = suspend_event \<or> st = suspended_state"
  by (auto simp: set_trace_state_def signal_trace_event_def Let_def split: if_splits)

lemma main_effect_stop_reported:
  assumes "main_effect E pid m s s'" and "stop_reported E pid f s"
  shows "stop_reported E pid f s'"
proof -
  have move: "stop_reported E pid f (set_trace_state st t)" if "calm_to s t" "st = suspended_state \<longrightarrow> halted E pid (hist t)" for st t
    using stop_reported_calm [OF that(1) assms(2), of f] that(2) set_trace_state_suspend [of st t]
    by (auto simp: stop_reported_def)
  from assms(1) show ?thesis
    by (cases rule: main_effect.cases) (auto intro!: move intro: stop_reported_calm [OF _ assms(2)])
qed

lemma reachable_stop_reported: "reachable E v ppid pid s0 st \<Longrightarrow> stop_reported E pid (fetcher st) (vars st)"
proof (induction rule: reachable.induct)
  case (r_step st st')
  from r_step(2) show ?case
  proof (cases rule: tstep_cases)
    case fetcher
    from fstep_stop_reported [OF fetcher(1) r_step(3)] show ?thesis .
  next
    case main
    from main_effect_stop_reported [OF main(1) r_step(3)] main(2) show ?thesis by (auto simp: stop_reported_def)
  qed
qed (simp add: stop_reported_def)

text \<open>The state machine: without a reported stop by \<open>SIGCONT\<close>, the trace is never resumed.\<close>

definition not_resumed :: "mloc \<Rightarrow> globals \<Rightarrow> bool" where
  "not_resumed m s \<longleftrightarrow> trace_event s \<noteq> resume_event \<and> (stage m \<le> 2 \<longrightarrow> trace_state s \<noteq> suspended_state)"

lemma calm_to_fields: "calm_to s t \<Longrightarrow> trace_state t = trace_state s \<and> trace_event t = trace_event s"
  using calm_toD [of s t] machine_fields [of t s] by simp

lemma set_trace_state_resume:
  "trace_event (set_trace_state st s) = resume_event \<Longrightarrow>
     trace_event s = resume_event \<or> trace_state s = suspended_state \<and> st = running_state"
  by (auto simp: set_trace_state_def signal_trace_event_def Let_def split: if_splits)

lemma main_effect_not_resumed:
  assumes "main_effect E pid m s s'" and "\<And>h. a_wait E h (OS (Waitpid pid)) \<noteq> Stopped Stop_SIGCONT" and "not_resumed m s"
    and "stage m < stage m' \<or> m = M_loop \<and> m' = M_loop"
  shows "not_resumed m' s'"
  using assms
  by (induction rule: main_effect.induct)
    (auto simp: not_resumed_def dest!: calm_to_fields dest: set_trace_state_resume)

lemma reachable_not_resumed:
  assumes "reachable E v ppid pid s0 st" and "\<And>h. a_wait E h (OS (Waitpid pid)) \<noteq> Stopped Stop_SIGCONT"
    and "trace_state s0 = init_state" and "trace_event s0 = init_event"
  shows "not_resumed (main st) (vars st)"
  using assms(1)
proof (induction rule: reachable.induct)
  case r_init
  then show ?case using assms(3,4) by (simp add: not_resumed_def)
next
  case (r_step st st')
  from r_step(2) show ?case
  proof (cases rule: tstep_cases)
    case fetcher
    with machine_fields(1,2) [OF fstep_machine [OF fetcher(1)]] r_step(3) show ?thesis
      by (simp add: not_resumed_def)
  next
    case main
    from main_effect_not_resumed [OF main(1) assms(2) r_step(3) main(4)] show ?thesis .
  qed
qed

lemma reachable_trans: "(tstep E v ppid pid)\<^sup>*\<^sup>* st st' \<Longrightarrow> reachable E v ppid pid s0 st \<Longrightarrow> reachable E v ppid pid s0 st'"
  by (induction rule: rtranclp_induct) (auto intro: reachable.r_step)

text \<open>The event and the state.\<close>

lemma event_agrees_set:
  assumes "event_agrees (trace_event s) (trace_state s)"
    and "trace_event s \<notin> {stop_event, fini_event} \<or> st \<in> {ready_state, fini_state}" and "st \<noteq> init_state"
  shows "event_agrees (trace_event (set_trace_state st s)) st"
  using assms by (cases "trace_event s"; cases st) (auto simp: set_trace_state_def signal_trace_event_def Let_def)

definition announced :: "mloc \<Rightarrow> globals \<Rightarrow> bool" where
  "announced m s \<longleftrightarrow> event_agrees (trace_event s) (trace_state s) \<and>
     (stage m \<le> 7 \<longrightarrow> trace_event s \<notin> {stop_event, fini_event}) \<and>
     (stage m \<le> 1 \<longrightarrow> trace_state s = init_state)"

lemma set_trace_state_event:
  "trace_event (set_trace_state st s) \<in> {stop_event, fini_event} \<Longrightarrow>
     trace_state s \<noteq> init_state \<and> st \<in> {ready_state, fini_state} \<or> trace_event s \<in> {stop_event, fini_event}"
  by (auto simp: set_trace_state_def signal_trace_event_def Let_def split: if_splits)

lemma announced_move:
  assumes "calm_to s t" and "announced m s" and "st \<noteq> init_state"
    and "stage m \<le> 7 \<or> st \<in> {ready_state, fini_state}" and "2 \<le> stage m'"
    and "stage m' \<le> 7 \<longrightarrow> trace_state s = init_state \<or> st \<notin> {ready_state, fini_state}"
    and "stage m' \<le> 7 \<longrightarrow> stage m \<le> 7"
  shows "announced m' (set_trace_state st t)"
proof -
  have t: "trace_state t = trace_state s" "trace_event t = trace_event s" using calm_to_fields [OF assms(1)] by auto
  have "event_agrees (trace_event (set_trace_state st t)) st"
    using assms(2-4) t by (intro event_agrees_set) (auto simp: announced_def)
  moreover have "trace_event (set_trace_state st t) \<notin> {stop_event, fini_event}" if "stage m' \<le> 7"
    using set_trace_state_event [of st t] assms(2,6,7) that t by (auto simp: announced_def)
  ultimately show ?thesis using assms(5) by (auto simp: announced_def)
qed

lemma main_effect_announced:
  assumes "main_effect E pid m s s'" and "announced m s" and "stage m < stage m' \<or> m = M_loop \<and> m' = M_loop"
  shows "announced m' s'"
  using assms
proof (induction rule: main_effect.induct)
  case (calm s s' m)
  then show ?case using calm_to_fields [of s s'] by (auto simp: announced_def)
next
  case (ready m s t)
  then show ?case by (intro announced_move [of s t m]) (auto simp: announced_def)
next
  case (running s t)
  then show ?case by (intro announced_move [of s t M_start]) auto
next
  case (suspend t s)
  then show ?case by (intro announced_move [of s t M_loop]) auto
next
  case (resume h s t)
  then show ?case by (intro announced_move [of s t M_loop]) auto
next
  case (fini s t)
  then show ?case by (intro announced_move [of s t M_fini]) auto
qed

lemma reachable_announced:
  assumes "reachable E v ppid pid s0 st" and "trace_state s0 = init_state" and "trace_event s0 = init_event"
  shows "announced (main st) (vars st)"
  using assms(1)
proof (induction rule: reachable.induct)
  case r_init
  then show ?case using assms(2,3) by (simp add: announced_def)
next
  case (r_step st st')
  from r_step(2) show ?case
  proof (cases rule: tstep_cases)
    case fetcher
    with machine_fields(1,2) [OF fstep_machine [OF fetcher(1)]] r_step(3) show ?thesis by (simp add: announced_def)
  next
    case main
    from main_effect_announced [OF main(1) r_step(3) main(4)] show ?thesis .
  qed
qed

section \<open>Properties\<close>

text \<open>C11. In every reachable state of the two threads, whatever the child and the devices do, the last event announces
  the state of the trace: whoever sees the start or resume event may rely on the running state, and so on.\<close>

theorem tracer_event_announces_state:
  assumes "reachable E v ppid pid s0 st" and "trace_state s0 = init_state" and "trace_event s0 = init_event"
  shows "event_agrees (trace_event (vars st)) (trace_state (vars st))"
  using reachable_announced [OF assms] by (simp add: announced_def)

text \<open>C4. The child is stopped while the trace is taken from the sink. In every reachable state, as long as the fetcher
  disables the trace, fetches it, enables it again or is about to continue the child, \<open>waitpid\<close> has reported that the
  child was stopped by \<open>SIGSTOP\<close>, and the tracer has sent no \<open>SIGCONT\<close> since that report; and from the moment
  it waits for that report, the last signal that was sent is \<open>SIGSTOP\<close>.\<close>

theorem fetch_while_child_stopped:
  assumes "reachable E v ppid pid s0 st"
    and "fetcher st \<in> {F_wait_suspend n, F_disable n, F_fetch n, F_enable n, F_continue n}"
  shows "stopped (hist (vars st)) \<and> (fetcher st \<noteq> F_wait_suspend n \<longrightarrow>
     (\<exists>h1 h2. hist (vars st) = h1 @ OS (Waitpid pid) # h2 \<and> a_wait E h1 (OS (Waitpid pid)) = Stopped Stop_SIGSTOP \<and>
       (\<forall>p. OS (Kill p SIGCONT) \<notin> set h2)))"
  using reachable_stopped [OF assms(1)] reachable_stop_reported [OF assms(1)] assms(2)
  by (auto simp: stop_reported_def halted_def)

text \<open>C26. The fetcher hangs after its first fetch. The kernel reports the continuation of a process that is not traced as
  continued and never as a stop by \<open>SIGCONT\<close>, but only the latter is handled. So once the fetcher waits for
  the resume event it waits for ever, and the main thread never gets past the join.\<close>

theorem fetcher_never_resumes:
  assumes "reachable E v ppid pid s0 st" and "trace_state s0 = init_state" and "trace_event s0 = init_event"
    and "\<And>h. a_wait E h (OS (Waitpid pid)) \<noteq> Stopped Stop_SIGCONT"
    and "fetcher st = F_wait_resume n" and "(tstep E v ppid pid)\<^sup>*\<^sup>* st st'"
  shows "fetcher st' = F_wait_resume n \<and> main st' \<notin> {M_export, M_done}"
proof -
  from assms(6) have "fetcher st' = F_wait_resume n"
  proof (induction rule: rtranclp_induct)
    case base
    show ?case by (rule assms(5))
  next
    case (step y z)
    have y: "reachable E v ppid pid s0 y" by (rule reachable_trans [OF step(1) assms(1)])
    from reachable_not_resumed [OF y assms(4,2,3)] have ne: "trace_event (vars y) \<noteq> resume_event"
      by (simp add: not_resumed_def)
    from step(2) show ?case
    proof (cases rule: tstep_cases)
      case fetcher
      with step(3) ne show ?thesis by (auto elim: fstep_wait_resume)
    next
      case main
      from init_no_fetcher [OF y] main(2) step(3) show ?thesis by auto
    qed
  qed
  with reachable_fetcher [OF reachable_trans [OF assms(6,1)]] show ?thesis by auto
qed

section \<open>Witnesses\<close>

text \<open>A tracer whose child is stopped by \<open>SIGTRAP\<close> first and by \<open>SIGSTOP\<close> later. The position of the sink has passed every
  threshold when the child was polled just before, and is 0 otherwise.\<close>

definition hang_env :: env where
  "hang_env = session_env\<lparr>
     a_int := (\<lambda>h c. case c of CS c \<Rightarrow> sample_int h (CS c) | _ \<Rightarrow> session_int h c),
     a_u64 := (\<lambda>h c. case c of CS (Cs_get_buffer_rwp d) \<Rightarrow> (if \<exists>p. last h = OS (Kill p SIG0) then 0x500000 else 0) | _ \<Rightarrow> 0x200000),
     a_bytes := (\<lambda>_ _. (0, [])),
     a_wait := (\<lambda>h _. if h = [] then Stopped Stop_SIGTRAP else Stopped Stop_SIGSTOP)\<rparr>"

lemma hang_env_simps [simp]:
  "a_int hang_env h (CS c) = sample_int h (CS c)" "a_int hang_env h (OS c') = session_int h (OS c')"
  "a_wait hang_env h d = (if h = [] then Stopped Stop_SIGTRAP else Stopped Stop_SIGSTOP)"
  "a_u64 hang_env h (CS (Cs_get_buffer_rwp dev)) = (if \<exists>p. last h = OS (Kill p SIG0) then 0x500000 else 0)"
  "a_u64 hang_env h (OS c') = 0x200000" "a_u64 hang_env h (CS (Cs_get_buffer_size_bytes dev)) = 0x200000"
  "a_bytes hang_env h d = (0, [])" "a_text hang_env = a_text session_env" "a_board hang_env = a_board session_env"
  by (simp_all add: hang_env_def)

lemma hang_like_sample: "like_sample hang_env"
  by (simp add: like_sample_def)

definition hang_state :: globals where
  "hang_state = initial_globals\<lparr>trace_cpu := 2, is_first_trace := False, fetcher_on := True\<rparr>"

text \<open>What the steps of the run rely on.\<close>

definition prepared :: "globals \<Rightarrow> bool" where
  "prepared s \<longleftrightarrow> devices s = sample_devices \<and> \<not> is_first_trace s \<and> \<not> ksight_on s \<and> fetcher_on s"

lemma hang_like_session: "like_session hang_env"
  by (simp add: like_session_def hang_like_sample)

lemma hang_init:
  "\<exists>s'. init_trace hang_env any_locals 1 77 (hang_state\<lparr>hist := h\<rparr>) = Some (0, s') \<and> prepared s' \<and>
     trace_state s' = ready_state \<and> trace_cpu s' = 2"
proof -
  have "hang_state\<lparr>hist := h\<rparr> = initial_globals\<lparr>hist := h, trace_cpu := 2, is_first_trace := False, fetcher_on := True\<rparr>"
    by (simp add: hang_state_def)
  then show ?thesis using init_like_session [OF hang_like_session, where h = h and i = False and b = True] by (auto simp: prepared_def)
qed

lemma hang_start:
  assumes "prepared s" and "trace_state s = ready_state" and "trace_cpu s = 2"
  shows "\<exists>s'. start_trace hang_env 77 True s = Some (0, s') \<and> prepared s' \<and> trace_state s' = running_state \<and>
     trace_event s' = start_event \<and> (\<exists>cs. hist s' = hist s @ cs)"
  using start_like_session [OF hang_like_session, of s] assms by (auto simp: prepared_def)

lemma hang_threshold:
  assumes "prepared s"
  shows "\<exists>n s'. fetch_threshold hang_env s = Some (n, s') \<and> n \<le> 0x400000 \<and> prepared s' \<and> machine s' = machine s \<and>
     last (hist s') = CS (Cs_get_buffer_size_bytes 0x20)"
proof -
  have "etr_ram_size s \<le> 0x400000" if "\<not> 0x200000 < etr_ram_size s"
    using that by (auto intro: order.trans simp: not_less)
  with assms show ?thesis by (auto simp: fetch_threshold_def ask_def prepared_def sample_devices_def machine_def)
qed

lemma hang_disable:
  assumes "prepared s"
  shows "\<exists>cs. disable_cs_trace hang_env False s = Some (0, s\<lparr>hist := hist s @ cs\<rparr>)"
proof -
  let ?sc = "tpiu_script Cs_sink_disable sample_devices @ disable_sinks_script sample_devices @ [(CS Cs_error_count, no_errors)]"
  have "run_script hang_env ?sc h = (True, h @ map fst ?sc)" for h
    by (rule run_script_all_pass)
      (auto simp: disable_sinks_script_def each_script_def tpiu_script_def check_defs sample_int_def)
  with assms show ?thesis
    by (simp add: disable_cs_trace_def TRACE_DISABLE_TRIAL_def numeral_eq_Suc prepared_def disable_trace_sinks_only_script
        script_result_def) (rule exI, rule refl)
qed

lemma hang_fetch:
  "prepared s \<Longrightarrow> \<exists>s'. fetch_trace hang_env s = Some (0, s') \<and> prepared s' \<and> machine s' = machine s"
  by (simp add: fetch_trace_def ask_defs sample_int_def grow_trace_buf.simps Let_def store_bytes_def prepared_def machine_def)

lemma hang_enable:
  assumes "prepared s"
  shows "\<exists>s'. enable_cs_trace hang_env p s = Some (0, s') \<and> prepared s' \<and> machine s' = machine s"
proof -
  obtain s' where e: "enable_cs_trace hang_env p s = Some (0, s')"
    using enable_like_sample [OF hang_like_sample, of s p] assms by (auto simp: prepared_def)
  with enable_cs_trace_frame [OF e] assms show ?thesis by (auto simp: prepared_def machine_def)
qed

text \<open>The run: the two threads start, the fetcher stops the child, and the main thread sees the stop.\<close>

abbreviation hang_reaches :: "tracer \<Rightarrow> bool" where
  "hang_reaches \<equiv> reachable hang_env any_locals 1 77 hang_state"

lemma hang_started:
  "\<exists>s n. hang_reaches \<lparr>main = M_loop, fetcher = F_worker n, vars = s\<rparr> \<and> n \<le> 0x400000 \<and> prepared s \<and>
     trace_state s = running_state \<and> trace_event s = start_event \<and> last (hist s) = CS (Cs_get_buffer_size_bytes 0x20)"
proof -
  let ?s1 = "hang_state\<lparr>hist := [OS (Waitpid 77)]\<rparr>"
  have "waitpid hang_env 77 hang_state = Some (Stopped Stop_SIGTRAP, ?s1)"
    by (simp add: waitpid_def ask_def hang_state_def initial_globals_def)
  from reachable.r_step [OF reachable.r_init tstep.t_first [OF this]]
  have r1: "hang_reaches \<lparr>main = M_init, fetcher = F_none, vars = ?s1\<rparr>" by simp
  obtain s2 where s2: "init_trace hang_env any_locals 1 77 ?s1 = Some (0, s2)" "prepared s2"
    "trace_state s2 = ready_state" "trace_cpu s2 = 2" using hang_init by blast
  have "fetcher_on ?s1" by (simp add: hang_state_def)
  with reachable.r_step [OF r1 tstep.t_init [OF s2(1)]]
  have r2: "hang_reaches \<lparr>main = M_start, fetcher = F_start, vars = s2\<rparr>" by simp
  obtain s3 where s3: "start_trace hang_env 77 True s2 = Some (0, s3)" "prepared s3"
    "trace_state s3 = running_state" "trace_event s3 = start_event" using hang_start [OF s2(2-4)] by blast
  note r3 = reachable.r_step [OF r2 tstep.t_start [OF s3(1)]]
  let ?s4 = "s3\<lparr>hist := hist s3 @ [OS (Ptrace_detach 77)]\<rparr>"
  have "ksight_begin hang_env 77 s3 = Some ((), ?s4)"
    using s3(2) by (simp add: ksight_begin_def ask_defs prepared_def)
  note r4 = reachable.r_step [OF r3 tstep.t_setup [OF this]]
  have "prepared ?s4" using s3(2) by (simp add: prepared_def)
  then obtain n s5 where s5: "fetch_threshold hang_env ?s4 = Some (n, s5)" "n \<le> 0x400000" "prepared s5" "machine s5 = machine ?s4"
    "last (hist s5) = CS (Cs_get_buffer_size_bytes 0x20)"
    using hang_threshold by blast
  note r5 = reachable.r_step [OF r4 tstep.t_fetcher [OF fstep.f_start [OF s5(1)]]]
  with s5 s3(3,4) show ?thesis by (auto simp: machine_def)
qed

lemma hang_polls:
  assumes "hang_reaches \<lparr>main = M_loop, fetcher = F_worker n, vars = s\<rparr>" and "n \<le> 0x400000" and "prepared s"
    and "trace_state s = running_state" and "trace_event s = start_event" and "last (hist s) = CS (Cs_get_buffer_size_bytes 0x20)"
  shows "\<exists>s'. hang_reaches \<lparr>main = M_loop, fetcher = F_wait_suspend n, vars = s'\<rparr> \<and> prepared s' \<and>
     trace_state s' = running_state \<and> hist s' \<noteq> []"
proof -
  let ?r = "CS (Cs_get_buffer_rwp 0x10)" and ?k = "\<lambda>g. OS (Kill (child_pid s) g)"
  let ?s = "\<lambda>cs. s\<lparr>hist := hist s @ cs\<rparr>"
  have etb: "etb (devices s) = 0x10" using assms(3) by (simp add: prepared_def sample_devices_def)
  note r1 = reachable.r_step [OF assms(1) tstep.t_fetcher [OF fstep.f_worker_start [OF assms(5)]]]
  have "buffer_rwp hang_env s = Some (0, ?s [?r])" using assms(6) etb by (simp add: buffer_rwp_def ask_def)
  note r2 = reachable.r_step [OF r1 tstep.t_fetcher [OF fstep.f_enter [OF this]]]
  have p: "os_int hang_env (Kill (child_pid (?s [?r])) SIG0) (?s [?r]) = Some (0, ?s [?r, ?k SIG0])"
    "buffer_rwp hang_env (?s [?r, ?k SIG0]) = Some (0x500000, ?s [?r, ?k SIG0, ?r])"
    using etb by (simp_all add: buffer_rwp_def ask_defs session_int_def)
  have "0x500000 - 0 > n" using assms(2) by (rule order.strict_trans1) simp
  note r3 = reachable.r_step [OF r2 tstep.t_fetcher [OF fstep.f_poll_reached [OF p this]]]
  have "os_int hang_env (Kill (child_pid (?s [?r, ?k SIG0, ?r])) SIGSTOP) (?s [?r, ?k SIG0, ?r]) =
      Some (0, ?s [?r, ?k SIG0, ?r, ?k SIGSTOP])"
    by (simp add: ask_defs session_int_def)
  note r4 = reachable.r_step [OF r3 tstep.t_fetcher [OF fstep.f_stop_child [OF this]]]
  then have "hang_reaches \<lparr>main = M_loop, fetcher = F_wait_suspend n, vars = ?s [?r, ?k SIG0, ?r, ?k SIGSTOP]\<rparr>" by simp
  then show ?thesis using assms(3,4) by (intro exI) (auto simp: prepared_def)
qed

lemma hang_fetches:
  assumes "hang_reaches \<lparr>main = M_loop, fetcher = F_wait_suspend n, vars = s\<rparr>" and "prepared s"
    and "trace_state s = running_state" and "hist s \<noteq> []"
  shows "(\<exists>s'. hang_reaches \<lparr>main = M_loop, fetcher = F_fetch n, vars = s'\<rparr>) \<and>
     (\<exists>s'. hang_reaches \<lparr>main = M_loop, fetcher = F_wait_resume n, vars = s'\<rparr>)"
proof -
  let ?s1 = "s\<lparr>hist := hist s @ [OS (Waitpid 77)]\<rparr>"
  let ?s2 = "set_trace_state suspended_state ?s1"
  have w: "waitpid hang_env 77 s = Some (Stopped Stop_SIGSTOP, ?s1)" using assms(4) by (simp add: waitpid_def ask_def)
  have "handle_status (Stopped Stop_SIGSTOP) ?s1 = (M_loop, ?s2)"
    using assms(2) by (simp add: handle_status_def trace_suspend_callback_def prepared_def)
  note r1 = reachable.r_step [OF assms(1) tstep.t_loop [OF w this]]
  have "wait_trace_event suspend_event ?s2" using assms(3) by (simp add: set_trace_state_def signal_trace_event_def)
  note r2 = reachable.r_step [OF r1 tstep.t_fetcher [OF fstep.f_wait_suspend [OF this]]]
  have p2: "prepared ?s2"
    using assms(2) by (simp add: prepared_def)
  obtain cs where "disable_cs_trace hang_env False ?s2 = Some (0, ?s2\<lparr>hist := hist ?s2 @ cs\<rparr>)" using hang_disable [OF p2] ..
  note r3 = reachable.r_step [OF r2 tstep.t_fetcher [OF fstep.f_disable [OF this]]]
  have "prepared (?s2\<lparr>hist := hist ?s2 @ cs\<rparr>)" using p2 by (simp add: prepared_def)
  then obtain s4 where s4: "fetch_trace hang_env (?s2\<lparr>hist := hist ?s2 @ cs\<rparr>) = Some (0, s4)" "prepared s4"
    using hang_fetch by blast
  from r3 have r3': "hang_reaches \<lparr>main = M_loop, fetcher = F_fetch n, vars = ?s2\<lparr>hist := hist ?s2 @ cs\<rparr>\<rparr>" by simp
  note r4 = reachable.r_step [OF r3' tstep.t_fetcher [OF fstep.f_fetch [OF s4(1)]]]
  obtain s5 where s5: "enable_cs_trace hang_env (child_pid s4) s4 = Some (0, s5)" using hang_enable [OF s4(2)] by blast
  from r4 have "hang_reaches \<lparr>main = M_loop, fetcher = F_enable n, vars = s4\<rparr>" by simp
  note r5 = reachable.r_step [OF this tstep.t_fetcher [OF fstep.f_enable [OF s5]]]
  have "os_int hang_env (Kill (child_pid s5) SIGCONT) s5 = Some (0, s5\<lparr>hist := hist s5 @ [OS (Kill (child_pid s5) SIGCONT)]\<rparr>)"
    by (simp add: ask_defs session_int_def)
  from reachable.r_step [OF _ tstep.t_fetcher [OF fstep.f_continue [OF this]]] r5
  have "hang_reaches \<lparr>main = M_loop, fetcher = F_wait_resume n,
      vars = s5\<lparr>hist := hist s5 @ [OS (Kill (child_pid s5) SIGCONT)]\<rparr>\<rparr>" by fastforce
  with r3' show ?thesis by blast
qed

lemma hang_run:
  "\<exists>n s. hang_reaches \<lparr>main = M_loop, fetcher = F_fetch n, vars = s\<rparr>"
  "\<exists>n s. hang_reaches \<lparr>main = M_loop, fetcher = F_wait_resume n, vars = s\<rparr>"
proof -
  obtain n s where "hang_reaches \<lparr>main = M_loop, fetcher = F_wait_suspend n, vars = s\<rparr>" "prepared s"
    "trace_state s = running_state" "hist s \<noteq> []"
    using hang_started hang_polls by metis
  from hang_fetches [OF this] show "\<exists>n s. hang_reaches \<lparr>main = M_loop, fetcher = F_fetch n, vars = s\<rparr>"
    "\<exists>n s. hang_reaches \<lparr>main = M_loop, fetcher = F_wait_resume n, vars = s\<rparr>" by blast+
qed

lemma hang_state_machine: "trace_state hang_state = init_state" "trace_event hang_state = init_event"
  by (simp_all add: hang_state_def initial_globals_def)

theorem tracer_event_announces_state_witness:
  "\<exists>st n. hang_reaches st \<and> fetcher st = F_fetch n \<and> event_agrees (trace_event (vars st)) (trace_state (vars st))"
proof -
  obtain n s where r: "hang_reaches \<lparr>main = M_loop, fetcher = F_fetch n, vars = s\<rparr>" using hang_run(1) by blast
  from tracer_event_announces_state [OF r hang_state_machine] r show ?thesis by fastforce
qed

theorem fetch_while_child_stopped_witness:
  "\<exists>st n h1 h2. hang_reaches st \<and> fetcher st = F_fetch n \<and> stopped (hist (vars st)) \<and>
     hist (vars st) = h1 @ OS (Waitpid 77) # h2 \<and> h1 \<noteq> [] \<and> OS (Kill 77 SIGCONT) \<notin> set h2"
proof -
  obtain n s where r: "hang_reaches \<lparr>main = M_loop, fetcher = F_fetch n, vars = s\<rparr>" using hang_run(1) by blast
  from fetch_while_child_stopped [OF r, of n] obtain h1 h2 where "stopped (hist s)" "hist s = h1 @ OS (Waitpid 77) # h2"
    "a_wait hang_env h1 (OS (Waitpid 77)) = Stopped Stop_SIGSTOP" "\<forall>p. OS (Kill p SIGCONT) \<notin> set h2" by auto
  moreover from this(3) have "h1 \<noteq> []" by auto
  ultimately show ?thesis using r by (intro exI conjI) (assumption | simp)+
qed

theorem fetcher_never_resumes_witness:
  "\<exists>st n. hang_reaches st \<and> fetcher st = F_wait_resume n \<and>
     (\<forall>st'. (tstep hang_env any_locals 1 77)\<^sup>*\<^sup>* st st' \<longrightarrow> main st' \<noteq> M_done)"
proof -
  obtain n s where r: "hang_reaches \<lparr>main = M_loop, fetcher = F_wait_resume n, vars = s\<rparr>" using hang_run(2) by blast
  have "a_wait hang_env h (OS (Waitpid 77)) \<noteq> Stopped Stop_SIGCONT" for h by simp
  from fetcher_never_resumes [OF r hang_state_machine this, of n] r show ?thesis by fastforce
qed

text \<open>Without a fetcher the tracer is deterministic.\<close>

lemma tstep_deterministic:
  "tstep E v ppid pid st a \<Longrightarrow> tstep E v ppid pid st b \<Longrightarrow> fetcher st = F_none \<Longrightarrow> a = b"
  by (induction rule: tstep.induct) (auto elim!: tstep_E fstep_none)

lemma deterministic_run:
  assumes det: "\<And>x y z. r\<^sup>*\<^sup>* s x \<Longrightarrow> r x y \<Longrightarrow> r x z \<Longrightarrow> y = z"
    and "r\<^sup>*\<^sup>* s t" and "r\<^sup>*\<^sup>* s u" and "\<And>x. \<not> r t x"
  shows "r\<^sup>*\<^sup>* u t"
  using assms(3)
proof (induction rule: rtranclp_induct)
  case base
  show ?case by (rule assms(2))
next
  case (step y z)
  from step(3) show ?case
  proof (cases rule: converse_rtranclpE)
    case base
    with step(2) assms(4) show ?thesis by blast
  next
    case (step w)
    then show ?thesis using det [OF \<open>r\<^sup>*\<^sup>* s y\<close> \<open>r y z\<close>] by blast
  qed
qed

lemma no_fetcher_steps:
  "(tstep E v ppid pid)\<^sup>*\<^sup>* st st' \<Longrightarrow> fetcher st = F_none \<Longrightarrow> \<not> fetcher_on (vars st) \<Longrightarrow>
   fetcher st' = F_none \<and> \<not> fetcher_on (vars st')"
proof (induction rule: rtranclp_induct)
  case (step y z)
  from step(2) show ?case
  proof (cases rule: tstep_cases)
    case fetcher
    with step fstep_not_none [OF fetcher(1)] show ?thesis by simp
  next
    case main
    with step main_effect_frame [OF main(1)] show ?thesis by auto
  qed
qed simp

lemma done_final: "fetcher st = F_none \<Longrightarrow> main st = M_done \<Longrightarrow> \<not> tstep E v ppid pid st st'"
  by (auto elim!: tstep_E fstep_none)

lemma loop_leaves_on_exit:
  "tstep E v ppid pid st st' \<Longrightarrow> stage (main st) \<le> 4 \<Longrightarrow> (\<And>h. a_wait E h (OS (Waitpid pid)) \<noteq> Exited 0) \<Longrightarrow>
   stage (main st') \<le> 4"
  by (induction rule: tstep.induct)
    (auto simp: waitpid_def ask_def handle_status_def split: wait_status.splits if_splits)

text \<open>C27. The loop of the main thread only ends when the child exits with status 0. If it exits with another status
  or is killed by a signal, \<open>waitpid\<close> fails from then on, the status it leaves never becomes a normal
  exit with status 0, and the tracer never gets to stop and export the trace.\<close>

theorem parent_waits_for_ever:
  assumes "reachable E v ppid pid s0 st" and "\<And>h. a_wait E h (OS (Waitpid pid)) \<noteq> Exited 0"
  shows "main st \<in> {M_first, M_init, M_start, M_setup, M_loop}"
proof -
  from assms(1) have "stage (main st) \<le> 4"
  proof (induction rule: reachable.induct)
    case (r_step st st')
    then show ?case by (intro loop_leaves_on_exit [OF r_step(2)] assms(2))
  qed simp
  then show ?thesis by (cases "main st") simp_all
qed

theorem parent_waits_for_ever_witness:
  "\<exists>st n. hang_reaches st \<and> fetcher st = F_fetch n \<and> main st \<in> {M_first, M_init, M_start, M_setup, M_loop}"
proof -
  obtain n s where r: "hang_reaches \<lparr>main = M_loop, fetcher = F_fetch n, vars = s\<rparr>" using hang_run(1) by blast
  have "a_wait hang_env h (OS (Waitpid 77)) \<noteq> Exited 0" for h by simp
  from parent_waits_for_ever [OF r this] r show ?thesis by fastforce
qed

text \<open>C28. The threshold at which the fetcher stops the child lies above the size of the sink exactly if the first
  intermediate buffer (ETF) is smaller than the sink (ETR), but more than half as large: the threshold then is
  twice the size of the ETF, and a sink that has filled up does not reach it.\<close>

theorem fetch_threshold_exceeds_sink:
  assumes "trace_sinks (devices s) 0 \<noteq> 0" and "etr_ram_size s \<noteq> 0"
    and "\<And>h. a_u64 E h (CS (Cs_get_buffer_size_bytes (trace_sinks (devices s) 0))) = etf" and "unat etf < 2 ^ 63"
  shows "\<exists>n s'. fetch_threshold E s = Some (n, s') \<and> etr_ram_size s' = etr_ram_size s \<and>
     (etr_ram_size s < n \<longleftrightarrow> etf < etr_ram_size s \<and> unat (etr_ram_size s) < 2 * unat etf)"
proof -
  have "unat (etf * 2) = 2 * unat etf" using assms(4) by (intro unat_word_double) simp
  then show ?thesis using assms(1-3) by (simp add: fetch_threshold_def ask_def word_less_nat_alt)
qed

theorem fetch_threshold_exceeds_sink_witness:
  "\<exists>n s'. fetch_threshold session_env (session_state\<lparr>etr_ram_size := 0x300000\<rparr>) = Some (n, s') \<and> etr_ram_size s' < n"
proof -
  have "a_u64 session_env h (CS (Cs_get_buffer_size_bytes d)) = 0x200000" for h d by (simp add: session_env_def)
  from fetch_threshold_exceeds_sink [of "session_state\<lparr>etr_ram_size := 0x300000\<rparr>" session_env, OF _ _ this]
  show ?thesis by (fastforce simp: sample_devices_def)
qed

end
