(* ===== verification/Parent.thy ===== *)
theory Parent
  imports Fetcher
begin

text \<open>
  The function \<open>parent\<close> of \<open>src/cs-trace.c\<close> as sequential code, the way it is written, and its relation to the interleaved
  model: without a fetcher the two describe the same runs. The argument \<open>F\<close> is what the fetcher thread does between the
  final event and its end, as in \<open>fini_trace\<close>.
\<close>

definition parent_finish ::
  "env \<Rightarrow> (globals \<Rightarrow> globals option) \<Rightarrow> globals \<Rightarrow> (unit \<times> globals) option" where
  "parent_finish E F s = do {
     (_, s) \<leftarrow> ksight_end E s;
     (_, s) \<leftarrow> stop_trace E True s;
     fini_trace E F s
   }"

partial_function (option) parent_loop ::
  "env \<Rightarrow> int \<Rightarrow> (globals \<Rightarrow> globals option) \<Rightarrow> globals \<Rightarrow> (unit \<times> globals) option" where
  "parent_loop E pid F s = do {
     (w, s) \<leftarrow> waitpid E pid s;
     if fst (handle_status w s) = M_ksight then parent_finish E F (snd (handle_status w s))
     else parent_loop E pid F (snd (handle_status w s))
   }"

definition parent ::
  "env \<Rightarrow> map_locals \<Rightarrow> int \<Rightarrow> int \<Rightarrow> (globals \<Rightarrow> globals option) \<Rightarrow> globals \<Rightarrow> (unit \<times> globals) option" where
  "parent E v ppid pid F s = do {
     (w, s) \<leftarrow> waitpid E pid s;
     (_, s) \<leftarrow> (if w = Stopped Stop_SIGTRAP then do {
          (_, s) \<leftarrow> init_trace E v ppid pid s;
          (_, s) \<leftarrow> start_trace E pid True s;
          ksight_begin E pid s
        } else Some ((), s));
     parent_loop E pid F s
   }"

section \<open>What remains to be done at a location\<close>

text \<open>The rest of \<open>parent\<close> from a location of the main thread on.\<close>

fun remaining ::
  "env \<Rightarrow> map_locals \<Rightarrow> int \<Rightarrow> int \<Rightarrow> (globals \<Rightarrow> globals option) \<Rightarrow> mloc \<Rightarrow> globals \<Rightarrow> (unit \<times> globals) option" where
  "remaining E v ppid pid F M_first s = parent E v ppid pid F s"
| "remaining E v ppid pid F M_init s = do {
     (_, s) \<leftarrow> init_trace E v ppid pid s;
     (_, s) \<leftarrow> start_trace E pid True s;
     (_, s) \<leftarrow> ksight_begin E pid s;
     parent_loop E pid F s
   }"
| "remaining E v ppid pid F M_start s = do {
     (_, s) \<leftarrow> start_trace E pid True s;
     (_, s) \<leftarrow> ksight_begin E pid s;
     parent_loop E pid F s
   }"
| "remaining E v ppid pid F M_setup s = do { (_, s) \<leftarrow> ksight_begin E pid s; parent_loop E pid F s }"
| "remaining E v ppid pid F M_loop s = parent_loop E pid F s"
| "remaining E v ppid pid F M_ksight s = parent_finish E F s"
| "remaining E v ppid pid F M_stop s = do { (_, s) \<leftarrow> stop_trace E True s; fini_trace E F s }"
| "remaining E v ppid pid F M_ready s = fini_trace E F (set_trace_state ready_state s)"
| "remaining E v ppid pid F M_fini s = fini_trace E F s"
| "remaining E v ppid pid F M_join s = do { (_, s) \<leftarrow> os_int E Pthread_join s; fini_export E s }"
| "remaining E v ppid pid F M_export s = fini_export E s"
| "remaining E v ppid pid F M_done s = Some ((), s)"

text \<open>A step of the main thread leaves the rest unchanged.\<close>

lemma remaining_step:
  assumes "tstep E v ppid pid st st'" and "fetcher st = F_none" and "\<not> fetcher_on (vars st)"
  shows "remaining E v ppid pid F (main st) (vars st) = remaining E v ppid pid F (main st') (vars st')"
  using assms
proof (cases rule: tstep.cases)
  case (t_first s w s' f)
  then show ?thesis by (auto simp: parent_def case_prod_unfold)
next
  case (t_loop s w s1 m s' f)
  then have "m = M_loop \<or> m = M_ksight" by (auto simp: handle_status_def split: wait_status.splits if_splits)
  with t_loop show ?thesis by (auto simp: parent_loop.simps [of E pid F s])
next
  case (t_fetcher f s f' s' m)
  with assms(2) show ?thesis by (auto elim: fstep_none)
next
  case (t_ksight s r s' f)
  then show ?thesis by (simp add: parent_finish_def)
next
  case (t_stop s r s' f)
  then show ?thesis by (simp add: stop_trace_def)
qed (auto simp: fini_trace_def)

lemma remaining_run:
  assumes "(tstep E v ppid pid)\<^sup>*\<^sup>* st st'" and "fetcher st = F_none" and "\<not> fetcher_on (vars st)"
  shows "remaining E v ppid pid F (main st) (vars st) = remaining E v ppid pid F (main st') (vars st')"
  using assms(1)
proof (induction rule: rtranclp_induct)
  case (step y z)
  from no_fetcher_steps [OF step(1) assms(2,3)] have "fetcher y = F_none" "\<not> fetcher_on (vars y)" by simp_all
  from remaining_step [OF step(2) this] step(3) show ?case by simp
qed simp

section \<open>Runs of the sequential code are runs of the interleaving\<close>

abbreviation at :: "mloc \<Rightarrow> globals \<Rightarrow> tracer" where
  "at m s \<equiv> \<lparr>main = m, fetcher = F_none, vars = s\<rparr>"

lemma step_keeps:
  assumes "tstep E v ppid pid (at m s) (at m' s')" and "\<not> fetcher_on s"
  shows "\<not> fetcher_on s'"
  using no_fetcher_steps [of E v ppid pid "at m s" "at m' s'"] assms by auto

lemma run_step:
  assumes "tstep E v ppid pid (at m s) (at m' s')" and "\<not> fetcher_on s"
    and "\<not> fetcher_on s' \<Longrightarrow> (tstep E v ppid pid)\<^sup>*\<^sup>* (at m' s') (at M_done s'')"
  shows "(tstep E v ppid pid)\<^sup>*\<^sup>* (at m s) (at M_done s'')"
  using assms(1) assms(3) [OF step_keeps [OF assms(1,2)]] by (rule converse_rtranclp_into_rtranclp)

lemma run_fini:
  assumes "fini_trace E F s = Some ((), s')" and "\<not> fetcher_on s"
  shows "(tstep E v ppid pid)\<^sup>*\<^sup>* (at M_fini s) (at M_done s')"
proof -
  from assms obtain r s1 where "fetch_trace E s = Some (r, s1)" "fini_export E s1 = Some ((), s')"
    by (auto simp: fini_trace_def bind_eq_Some_conv)
  then show ?thesis
    by (meson assms(2) run_step tstep.t_fini_fetch tstep.t_export rtranclp.rtrancl_refl)
qed

lemma run_finish:
  assumes "parent_finish E F s = Some ((), s')" and "\<not> fetcher_on s"
  shows "(tstep E v ppid pid)\<^sup>*\<^sup>* (at M_ksight s) (at M_done s')"
proof -
  from assms(1) obtain r1 s1 r2 s2 where k: "ksight_end E s = Some (r1, s1)"
    and d: "disable_cs_trace E True s1 = Some (r2, s2)"
    and f: "fini_trace E F (if r2 < 0 then s2 else set_trace_state ready_state s2) = Some ((), s')"
    by (auto simp: parent_finish_def stop_trace_def bind_eq_Some_conv split: if_splits)
  show ?thesis
  proof (rule run_step [OF tstep.t_ksight [OF k] assms(2)], rule run_step [OF tstep.t_stop [OF d]])
    assume n: "\<not> fetcher_on s2"
    show "(tstep E v ppid pid)\<^sup>*\<^sup>* (at (if r2 < 0 then M_fini else M_ready) s2) (at M_done s')"
    proof (cases "r2 < 0")
      case True
      with run_fini [OF f] n show ?thesis by simp
    next
      case False
      then show ?thesis using run_step [OF tstep.t_ready n] run_fini [OF f] by simp
    qed
  qed
qed

lemma handle_status_loc: "fst (handle_status w s) = M_ksight \<or> fst (handle_status w s) = M_loop"
  by (auto simp: handle_status_def split: wait_status.split)

lemma run_loop:
  assumes "parent_loop E pid F s = Some ((), s')" and "\<not> fetcher_on s"
  shows "(tstep E v ppid pid)\<^sup>*\<^sup>* (at M_loop s) (at M_done s')"
proof -
  have "\<not> fetcher_on s \<longrightarrow> (tstep E v ppid pid)\<^sup>*\<^sup>* (at M_loop s) (at M_done (snd ((), s')))"
  proof (rule parent_loop.raw_induct [where P = "\<lambda>E pid F s y. \<not> fetcher_on s \<longrightarrow> (tstep E v ppid pid)\<^sup>*\<^sup>* (at M_loop s) (at M_done (snd y))", OF _ assms(1)])
    fix rec E pid F s and y :: "unit \<times> globals"
    assume IH: "\<And>E pid F s y. rec E pid F s = Some y \<Longrightarrow> \<not> fetcher_on s \<longrightarrow> (tstep E v ppid pid)\<^sup>*\<^sup>* (at M_loop s) (at M_done (snd y))"
      and eq: "do {
         (w, s) \<leftarrow> waitpid E pid s;
         if fst (handle_status w s) = M_ksight then parent_finish E F (snd (handle_status w s))
         else rec E pid F (snd (handle_status w s))
       } = Some y"
    then obtain w s1 where w: "waitpid E pid s = Some (w, s1)" by (auto simp: bind_eq_Some_conv)
    obtain m s2 where h: "handle_status w s1 = (m, s2)" by (cases "handle_status w s1")
    have "(tstep E v ppid pid)\<^sup>*\<^sup>* (at m s2) (at M_done (snd y))" if "\<not> fetcher_on s2"
    proof (cases "m = M_ksight")
      case True
      with eq w h have "parent_finish E F s2 = Some ((), snd y)" by (cases y) simp
      from run_finish [OF this that] True show ?thesis by simp
    next
      case False
      with eq w h have "rec E pid F s2 = Some y" by simp
      from IH [OF this] that False handle_status_loc [of w s1] h show ?thesis by simp
    qed
    then show "\<not> fetcher_on s \<longrightarrow> (tstep E v ppid pid)\<^sup>*\<^sup>* (at M_loop s) (at M_done (snd y))"
      using run_step [OF tstep.t_loop [OF w h]] by blast
  qed
  with assms(2) show ?thesis by simp
qed

lemma run_parent:
  assumes "parent E v ppid pid F s = Some ((), s')" and "\<not> fetcher_on s"
  shows "(tstep E v ppid pid)\<^sup>*\<^sup>* (at M_first s) (at M_done s')"
proof -
  from assms(1) obtain w s1 where w: "waitpid E pid s = Some (w, s1)" by (auto simp: parent_def bind_eq_Some_conv)
  show ?thesis
  proof (cases "w = Stopped Stop_SIGTRAP")
    case False
    with assms(1) w have "parent_loop E pid F s1 = Some ((), s')" by (simp add: parent_def)
    with run_step [OF tstep.t_first [OF w] assms(2)] run_loop False show ?thesis by simp
  next
    case True
    with assms(1) w obtain r2 s2 r3 s3 u s4 where i: "init_trace E v ppid pid s1 = Some (r2, s2)"
      and st: "start_trace E pid True s2 = Some (r3, s3)" and k: "ksight_begin E pid s3 = Some (u, s4)"
      and l: "parent_loop E pid F s4 = Some ((), s')"
      by (auto simp: parent_def bind_eq_Some_conv)
    have first: "tstep E v ppid pid (at M_first s) (at M_init s1)" using tstep.t_first [OF w, of v ppid F_none] True by simp
    have init: "tstep E v ppid pid (at M_init s1) (at M_start s2)"
      using tstep.t_init [OF i, of F_none] step_keeps [OF first assms(2)] by simp
    show ?thesis
      by (rule run_step [OF first assms(2)], rule run_step [OF init], assumption,
          rule run_step [OF tstep.t_start [OF st]], assumption, rule run_step [OF tstep.t_setup [OF k]], assumption,
          rule run_loop [OF l])
  qed
qed

text \<open>C13. Without a fetcher the interleaved model of the tracer is the sequential function \<open>parent\<close>, as it is written: a run of the
  steps of the main thread from the start ends in a state exactly if \<open>parent\<close> returns in this state. In particular \<open>parent\<close>
  does not return, or crashes, exactly if no run of the steps ends.\<close>

theorem parent_equivalence:
  assumes "\<not> fetcher_on s"
  shows "parent E v ppid pid F s = Some ((), s') \<longleftrightarrow> (tstep E v ppid pid)\<^sup>*\<^sup>* (at M_first s) (at M_done s')"
proof
  assume "parent E v ppid pid F s = Some ((), s')"
  then show "(tstep E v ppid pid)\<^sup>*\<^sup>* (at M_first s) (at M_done s')" by (rule run_parent) (rule assms)
next
  assume "(tstep E v ppid pid)\<^sup>*\<^sup>* (at M_first s) (at M_done s')"
  from remaining_run [OF this, of F] assms show "parent E v ppid pid F s = Some ((), s')" by simp
qed

section \<open>The end of a run\<close>

text \<open>From the exit of the child on, without a fetcher and without ksight: the trace is disabled, whether or not this succeeds the rest
  of the trace is fetched, and everything is exported.\<close>

lemma finish_exports:
  fixes s :: globals
  assumes "\<not> fetcher_on s" and "\<not> ksight_on s" and "buf_ok (trace_buf s)" and "board s = Some b" and "registration_verbose s = 0"
    and "mremap_contract E" and "unread_contract E" and "trace_data_contract E"
    and "\<And>h. a_text E h (OS Getcwd) = Some cwd" and "\<And>h f m. a_int E h (OS (Fopen f m)) \<noteq> 0"
  shows "\<exists>s' r dis new data pad rest. parent_finish E F s = Some ((), s') \<and>
     disable_cs_trace E True s = Some (r, s\<lparr>hist := hist s @ dis\<rparr>) \<and>
     fetch_calls E (etb (devices s)) (hist s @ dis) new data \<and> length pad = pad8 (off (trace_buf s)) \<and> no_fwrite rest \<and>
     hist s' = hist s @ dis @ new @ file_write E (hist s @ dis @ new) cwd ''cstrace.bin'' (contents (trace_buf s) @ pad @ data)
        @ rest @ [CS Cs_shutdown]"
proof -
  obtain r dis where d: "disable_cs_trace E True s = Some (r, s\<lparr>hist := hist s @ dis\<rparr>)"
    using disable_cs_trace_total [OF assms(4,5)] by blast
  define t where "t = (if r < 0 then s\<lparr>hist := hist s @ dis\<rparr> else set_trace_state ready_state (s\<lparr>hist := hist s @ dis\<rparr>))"
  have t: "\<not> fetcher_on t" "\<not> ksight_on t" "trace_buf t = trace_buf s" "devices t = devices s" "hist t = hist s @ dis"
    using assms(1,2) by (simp_all add: t_def)
  obtain q s1 new pad data where f: "fetch_trace E t = Some (q, s1)" "buf_ok (trace_buf s1)" "length pad = pad8 (off (trace_buf s))"
    "s1 = t\<lparr>hist := hist t @ new, trace_buf := trace_buf s1\<rparr>" "fetch_calls E (etb (devices s)) (hist s @ dis) new data"
    "contents (trace_buf s1) = contents (trace_buf s) @ pad @ data"
    using fetch_trace_ok [OF assms(3) [folded t(3)] assms(6-8)] by (elim returnsE) (metis t(3-5))
  from f(4) obtain b1 where "s1 = t\<lparr>hist := hist t @ new, trace_buf := b1\<rparr>" by blast
  then have k1: "\<not> ksight_on s1" and h1: "hist s1 = hist s @ dis @ new" using t(2,5) by simp_all
  from fini_export_calls [OF f(2) k1 assms(9,10)] obtain s' rest where x: "fini_export E s1 = Some ((), s')"
    "hist s' = hist s1 @ file_write E (hist s1) cwd ''cstrace.bin'' (contents (trace_buf s1)) @ rest @ [CS Cs_shutdown]"
    "no_fwrite rest" by blast
  have "parent_finish E F s = Some ((), s')"
    using d f(1) x(1) t(1) assms(2)
    by (auto simp: parent_finish_def ksight_end_def stop_trace_def fini_trace_def t_def split: if_splits)
  with d x(2,3) f(3,5,6) h1 show ?thesis
    by (intro exI [of _ s'] exI [of _ r] exI [of _ dis] exI [of _ new] exI [of _ data] exI [of _ pad] exI [of _ rest]) simp
qed

text \<open>C12. Without a fetcher and without ksight, once the child has exited with status 0, the tracer ends, whether or not
  the trace can be disabled: every run leads to one final state. Its calls are, in this order: those of \<open>disable_cs_trace\<close>, those of one
  fetch from the ETR, which delivers \<open>data\<close>, and the write of the bytes collected before, fewer than eight bytes of alignment and
  \<open>data\<close> to the file \<open>cstrace.bin\<close>; nothing more is written, and the shutdown of CSAL is last.\<close>

theorem tracer_completes:
  assumes "main st = M_ksight" and "fetcher st = F_none" and "\<not> fetcher_on (vars st)" and "\<not> ksight_on (vars st)"
    and "buf_ok (trace_buf (vars st))" and "board (vars st) = Some b" and "registration_verbose (vars st) = 0"
    and "mremap_contract E" and "unread_contract E" and "trace_data_contract E"
    and "\<And>h. a_text E h (OS Getcwd) = Some cwd" and "\<And>h f m. a_int E h (OS (Fopen f m)) \<noteq> 0"
    and "h0 = hist (vars st)"
  shows "\<exists>st' r dis new data pad rest. main st' = M_done \<and>
     disable_cs_trace E True (vars st) = Some (r, (vars st)\<lparr>hist := h0 @ dis\<rparr>) \<and>
     fetch_calls E (etb (devices (vars st))) (h0 @ dis) new data \<and> length pad < 8 \<and> no_fwrite rest \<and>
     hist (vars st') = h0 @ dis @ new
        @ file_write E (h0 @ dis @ new) cwd ''cstrace.bin'' (contents (trace_buf (vars st)) @ pad @ data) @ rest @ [CS Cs_shutdown] \<and>
     (\<forall>st''. (tstep E v ppid pid)\<^sup>*\<^sup>* st st'' \<longrightarrow> (tstep E v ppid pid)\<^sup>*\<^sup>* st'' st')"
proof -
  let ?R = "tstep E v ppid pid" and ?s = "vars st"
  obtain s' r dis new data pad rest where p: "parent_finish E (\<lambda>_. None) ?s = Some ((), s')"
    "disable_cs_trace E True ?s = Some (r, ?s\<lparr>hist := hist ?s @ dis\<rparr>)"
    "fetch_calls E (etb (devices ?s)) (hist ?s @ dis) new data" "length pad = pad8 (off (trace_buf ?s))" "no_fwrite rest"
    "hist s' = hist ?s @ dis @ new @ file_write E (hist ?s @ dis @ new) cwd ''cstrace.bin'' (contents (trace_buf ?s) @ pad @ data)
        @ rest @ [CS Cs_shutdown]"
    using finish_exports [OF assms(3-12), of "\<lambda>_. None"] by blast
  have st: "st = at M_ksight (vars st)" using assms(1,2) by (cases st) simp
  have run: "?R\<^sup>*\<^sup>* st (at M_done s')" using run_finish [OF p(1) assms(3)] st by simp
  have det: "y = z" if "?R\<^sup>*\<^sup>* st x" "?R x y" "?R x z" for x y z
    using no_fetcher_steps [OF that(1) assms(2,3)] tstep_deterministic [OF that(2,3)] by simp
  have "?R\<^sup>*\<^sup>* st'' (at M_done s')" if "?R\<^sup>*\<^sup>* st st''" for st''
    by (rule deterministic_run [OF _ run that]) (erule (2) det, rule done_final, simp_all)
  with p pad8_less [of "off (trace_buf ?s)"] assms(13) show ?thesis
    by (intro exI [of _ "at M_done s'"] exI [of _ r] exI [of _ dis] exI [of _ new] exI [of _ data] exI [of _ pad] exI [of _ rest]) simp
qed

section \<open>Witnesses\<close>

lemma session_fopen: "a_int session_env h (OS (Fopen f m)) \<noteq> 0"
  by (simp add: session_int_def)

theorem tracer_completes_witness:
  "\<exists>st' dis new data pad rest. main st' = M_done \<and> length pad < 8 \<and> fetch_calls session_env (etb sample_devices) dis new data \<and>
     hist (vars st') = dis @ new
       @ [OS Getcwd, OS (Fopen ''/tmp/cstrace.bin'' ''wb''), OS (Fwrite 5 ([0, 1, 2, 3, 4] @ pad @ data)), OS (Fclose 5)]
       @ rest @ [CS Cs_shutdown] \<and>
     (tstep session_env any_locals 1 77)\<^sup>*\<^sup>* (at M_ksight (session_state\<lparr>trace_buf := five_bytes_buf\<rparr>)) st'"
proof -
  let ?st = "at M_ksight (session_state\<lparr>trace_buf := five_bytes_buf\<rparr>)"
  have fw: "file_write session_env h ''/tmp'' ''cstrace.bin'' d =
      [OS Getcwd, OS (Fopen ''/tmp/cstrace.bin'' ''wb''), OS (Fwrite 5 d), OS (Fclose 5)]" for h d
    by (simp add: file_write_def session_int_def PATH_MAX_def)
  from tracer_completes [of ?st sample_board session_env "''/tmp''" _ any_locals 1 77,
    OF _ _ _ _ _ _ _ session_contracts _ session_fopen refl]
  show ?thesis by (simp add: five_bytes_ok five_bytes_contents fw) (meson rtranclp.rtrancl_refl)
qed

text \<open>A child that has exited before the first wait; the collected bytes are exported.\<close>

theorem parent_equivalence_witness:
  "\<exists>s'. parent session_env any_locals 1 77 (\<lambda>_. None) (session_state\<lparr>trace_buf := five_bytes_buf\<rparr>) = Some ((), s') \<and>
     (tstep session_env any_locals 1 77)\<^sup>*\<^sup>* (at M_first (session_state\<lparr>trace_buf := five_bytes_buf\<rparr>)) (at M_done s')"
proof -
  let ?s = "session_state\<lparr>trace_buf := five_bytes_buf\<rparr>"
  let ?t = "session_state\<lparr>trace_buf := five_bytes_buf, hist := [OS (Waitpid 77), OS (Waitpid 77)]\<rparr>"
  obtain s' where f: "parent_finish session_env (\<lambda>_. None) ?t = Some ((), s')"
    using finish_exports [of ?t sample_board session_env "''/tmp''" "\<lambda>_. None", OF _ _ _ _ _ session_contracts _ session_fopen]
    by (auto simp: five_bytes_ok)
  have "a_wait session_env h c = Exited 0" for h c by (simp add: session_env_def sample_env_def)
  with f have p: "parent session_env any_locals 1 77 (\<lambda>_. None) ?s = Some ((), s')"
    by (simp add: parent_def waitpid_def ask_def parent_loop.simps handle_status_def)
  with parent_equivalence [of ?s session_env any_locals 1 77 "\<lambda>_. None" s'] show ?thesis by auto
qed

end
