(* ===== verification/Cli.thy ===== *)
theory Cli
  imports Parent
begin

text \<open>
  The command line of the tracer (\<open>src/cs-trace.c\<close>): the parsing of the options in \<open>main\<close>, the process \<open>child\<close> that
  becomes the traced program, and the start of the two processes. \<open>getopt_long\<close> is modelled as the C
  library documents it, with the permutation of the arguments: the elements that are no options are kept, in
  order, behind the options. The main thread of the tracer, \<open>parent\<close>, is in the theories \<open>Fetcher\<close> and \<open>Parent\<close>.
\<close>

section \<open>getopt\_long\<close>

datatype has_arg = no_argument | required_argument | optional_argument

text \<open>What one call of \<open>getopt_long\<close> reports: an option with its argument (\<open>optarg\<close>), or \<open>'?'\<close>.\<close>

datatype opt = Opt char "string option" | Bad_opt

text \<open>An option character in the string of short options, and the colons behind it.\<close>

fun short_option :: "string \<Rightarrow> char \<Rightarrow> has_arg option" where
  "short_option [] c = None"
| "short_option (d # ds) c =
     (if d = c \<and> c \<noteq> CHR '':'' then
        Some (case ds of
            x # y # _ \<Rightarrow> if x = CHR '':'' \<and> y = CHR '':'' then optional_argument
                           else if x = CHR '':'' then required_argument else no_argument
          | [x] \<Rightarrow> if x = CHR '':'' then required_argument else no_argument
          | [] \<Rightarrow> no_argument)
      else short_option ds c)"

text \<open>The element after the dash: options without an argument may be followed by others; an argument is the rest of the
  element or else the next element of \<open>argv\<close>. The Boolean says whether that one was used.\<close>

fun short_options :: "string \<Rightarrow> string \<Rightarrow> string option \<Rightarrow> opt list \<times> bool" where
  "short_options tab [] nxt = ([], False)"
| "short_options tab (c # cs) nxt = (case short_option tab c of
       None \<Rightarrow> apfst ((#) Bad_opt) (short_options tab cs nxt)
     | Some no_argument \<Rightarrow> apfst ((#) (Opt c None)) (short_options tab cs nxt)
     | Some optional_argument \<Rightarrow> ([Opt c (if cs = [] then None else Some cs)], False)
     | Some required_argument \<Rightarrow>
         if cs \<noteq> [] then ([Opt c (Some cs)], False)
         else case nxt of None \<Rightarrow> ([Bad_opt], False) | Some a \<Rightarrow> ([Opt c (Some a)], True))"

type_synonym long_table = "(string \<times> has_arg \<times> char) list"

text \<open>A long option is named exactly or by a prefix that fits one entry only.\<close>

definition find_long :: "long_table \<Rightarrow> string \<Rightarrow> (has_arg \<times> char) option" where
  "find_long tab name = (case map_of tab name of
       Some e \<Rightarrow> Some e
     | None \<Rightarrow> (case filter (\<lambda>(n, _). prefix name n) tab of [(n, e)] \<Rightarrow> Some e | _ \<Rightarrow> None))"

definition long_option :: "long_table \<Rightarrow> string \<Rightarrow> string option \<Rightarrow> opt list \<times> bool" where
  "long_option tab body nxt =
     (let name = takeWhile (\<lambda>c. c \<noteq> CHR ''='') body;
          val = (case dropWhile (\<lambda>c. c \<noteq> CHR ''='') body of [] \<Rightarrow> None | _ # v \<Rightarrow> Some v)
      in case find_long tab name of
          None \<Rightarrow> ([Bad_opt], False)
        | Some (no_argument, c) \<Rightarrow> ([if val = None then Opt c None else Bad_opt], False)
        | Some (optional_argument, c) \<Rightarrow> ([Opt c val], False)
        | Some (required_argument, c) \<Rightarrow> (case val of
              Some v \<Rightarrow> ([Opt c (Some v)], False)
            | None \<Rightarrow> (case nxt of None \<Rightarrow> ([Bad_opt], False) | Some a \<Rightarrow> ([Opt c (Some a)], True))))"

definition is_option :: "string \<Rightarrow> bool" where
  "is_option a \<longleftrightarrow> (case a of d # _ # _ \<Rightarrow> d = CHR ''-'' | _ \<Rightarrow> False)"

definition element :: "string \<Rightarrow> long_table \<Rightarrow> string \<Rightarrow> string option \<Rightarrow> opt list \<times> bool" where
  "element tab ltab a nxt =
     (if take 2 a = ''--'' then long_option ltab (drop 2 a) nxt else short_options tab (tl a) nxt)"

text \<open>The calls of \<open>getopt_long\<close> until it returns -1, on \<open>argv\<close> without its first element: the options reported, the
  elements before \<open>optind\<close>, and those from \<open>optind\<close> on. \<open>ns\<close> are the elements passed over, \<open>bs\<close> the
  others. (\<open>POSIXLY_CORRECT\<close> is not set.)\<close>

fun getopt_long ::
  "string \<Rightarrow> long_table \<Rightarrow> string list \<Rightarrow> string list \<Rightarrow> string list \<Rightarrow> opt list \<times> string list \<times> string list" where
  "getopt_long tab ltab [] ns bs = ([], bs, ns)"
| "getopt_long tab ltab (a # as) ns bs =
     (if a = ''--'' then ([], bs @ [a], ns @ as)
      else if \<not> is_option a then getopt_long tab ltab as (ns @ [a]) bs
      else let (os, used) = element tab ltab a (case as of [] \<Rightarrow> None | x # _ \<Rightarrow> Some x)
           in apfst ((@) os) (getopt_long tab ltab (if used then tl as else as) ns
                (bs @ a # (if used then take 1 as else []))))"

section \<open>main\<close>

definition optstring :: string where
  "optstring = ''b:c:e:f:k:v::h''"

definition long_options :: long_table where
  "long_options = [(''board'', required_argument, CHR ''b''), (''cpu'', required_argument, CHR ''c''),
     (''export'', no_argument, CHR ''e''), (''fetcher'', no_argument, CHR ''f''),
     (''udmabuf'', required_argument, CHR ''u''), (''ksight'', no_argument, CHR ''k''),
     (''verbose'', optional_argument, CHR ''v''), (''help'', no_argument, CHR ''h'')]"

text \<open>\<open>atoi\<close>: the number as \<open>strtol\<close> reads it in base 10, converted to \<open>int\<close>; 0 if there is none.\<close>

definition atoi :: "string \<Rightarrow> int" where
  "atoi t = (case scan_ld t of None \<Rightarrow> 0 | Some (v, _) \<Rightarrow> signed_take_bit 31 v)"

text \<open>How the parsing ends: \<open>exit\<close> after the usage text, with a status, or with the command line of the program to trace.\<close>

datatype cli = Exit int | Trace "string list"

text \<open>The \<open>switch\<close> in the loop: \<open>None\<close> is a null pointer given to \<open>atoi\<close>, \<open>Inl\<close> an exit.\<close>

definition switch :: "opt \<Rightarrow> 'z globals_scheme \<Rightarrow> (int + 'z globals_scheme) option" where
  "switch o1 s = (case o1 of
       Bad_opt \<Rightarrow> Some (Inr s)
     | Opt c optarg \<Rightarrow>
         if c = CHR ''b'' then map_option (\<lambda>a. Inr (s\<lparr>board_name := a\<rparr>)) optarg
         else if c = CHR ''c'' then map_option (\<lambda>a. Inr (s\<lparr>trace_cpu := atoi a\<rparr>)) optarg
         else if c = CHR ''e'' then Some (Inr (s\<lparr>export_config := True\<rparr>))
         else if c = CHR ''f'' then Some (Inr (s\<lparr>fetcher_on := True\<rparr>))
         else if c = CHR ''u'' then map_option (\<lambda>a. Inr (s\<lparr>udmabuf_num := atoi a\<rparr>)) optarg
         else if c = CHR ''k'' then Some (Inr (s\<lparr>ksight_on := True\<rparr>))
         else if c = CHR ''v'' then
           Some (Inr (s\<lparr>registration_verbose := (case optarg of Some a \<Rightarrow> atoi a | None \<Rightarrow> 1)\<rparr>))
         else if c = CHR ''h'' then Some (Inl 0)
         else Some (Inr s))"

fun switches :: "opt list \<Rightarrow> 'z globals_scheme \<Rightarrow> (int + 'z globals_scheme) option" where
  "switches [] s = Some (Inr s)"
| "switches (x # xs) s = (case switch x s of
       None \<Rightarrow> None | Some (Inl n) \<Rightarrow> Some (Inl n) | Some (Inr s) \<Rightarrow> switches xs s)"

text \<open>\<open>main\<close> up to the fork, on \<open>argv\<close>. The size of the unused bitmap is left out.\<close>

definition parse_cli :: "string list \<Rightarrow> 'z globals_scheme \<Rightarrow> (cli \<times> 'z globals_scheme) option" where
  "parse_cli argv s =
     (let s = s\<lparr>registration_verbose := 0\<rparr>
      in if length argv < 3 then Some (Exit 0, s)
         else let (os, before, operands) = getopt_long optstring long_options (tl argv) [] []
              in case switches os s of
                  None \<Rightarrow> None
                | Some (Inl n) \<Rightarrow> Some (Exit n, s)
                | Some (Inr s) \<Rightarrow>
                    if operands = [] \<or> last (hd argv # before) \<noteq> ''--'' then Some (Exit 1, s)
                    else Some (Trace operands, s))"

section \<open>The two processes\<close>

text \<open>The child: it exits, it has become the traced program, or \<open>execvpe\<close> failed and the function returns.\<close>

datatype child_end = Child_exit int | Child_exec | Child_return

definition child :: "env \<Rightarrow> string list \<Rightarrow> 'z world_scheme \<Rightarrow> (child_end \<times> 'z world_scheme) option" where
  "child E argv s = do {
     (ret, s) \<leftarrow> os_int E Ptrace_traceme s;
     if ret < 0 then Some (Child_exit 1, s) else do {
     (r, s) \<leftarrow> os_int E (Access (hd argv) False) s;
     if r \<noteq> 0 then Some (Child_exit 1, s) else do {
     (r, s) \<leftarrow> os_int E (Access (hd argv) True) s;
     if r \<noteq> 0 then Some (Child_exit 1, s) else do {
     (r, s) \<leftarrow> os_int E (Execvpe argv) s;
     Some (if r = -1 then Child_return else Child_exec, s)
     }}}
   }"

text \<open>How a process leaves \<open>main\<close>: with an exit status, or as the traced program. \<open>v\<close>, \<open>F\<close> and \<open>ppid\<close> are as in \<open>parent\<close>: the
  uninitialised locals, the effect of the fetcher thread at the end, and the process number of the tracer.\<close>

datatype process = Status int | Program

definition cs_trace_main ::
  "env \<Rightarrow> map_locals \<Rightarrow> int \<Rightarrow> (globals \<Rightarrow> globals option) \<Rightarrow> string list \<Rightarrow> globals \<Rightarrow> (process \<times> globals) option" where
  "cs_trace_main E v ppid F argv s = do {
     (c, s) \<leftarrow> parse_cli argv s;
     (case c of
        Exit n \<Rightarrow> Some (Status n, s)
      | Trace argvp \<Rightarrow> do {
          (pid, s) \<leftarrow> os_int E Fork s;
          if pid = 0 then do {
            (r, s) \<leftarrow> child E argvp s;
            Some (case r of Child_exit n \<Rightarrow> Status n | Child_exec \<Rightarrow> Program | Child_return \<Rightarrow> Status 0, s)
          } else if pid = -1 then Some (Status 1, s)
          else do {
            (_, s) \<leftarrow> parent E v ppid pid F s;
            (_, s) \<leftarrow> os_int E Wait s;
            Some (Status 0, s)
          }
        })
   }"

section \<open>Numbers\<close>

lemma scan_number_minus:
  assumes "2 \<le> b" and "b < 16"
  shows "scan_number b (CHR ''-'' # print_nat b n) = Some (- int n, [])"
proof -
  obtain ds where ds: "ds \<noteq> []" "print_nat b n = map digit_char ds" "\<forall>d \<in> set ds. d < b"
    "digits_value b (print_nat b n) = n"
    using print_nat_digits [OF assms(1), of n] assms(2) by auto
  have tw: "takeWhile (in_base b) (map digit_char ds) = map digit_char ds"
    using takeWhile_stops [OF ds(3), of "[]"] assms(2) by (simp add: stops_def)
  show ?thesis
    using ds assms by (simp add: scan_number_def skip_space_def scan_sign_def isspace_def Let_def tw del: takeWhile_eq_all_conv)
qed

lemma atoi_print_int:
  assumes "- (2 ^ 31) \<le> n" and "n < 2 ^ 31"
  shows "atoi (print_int n) = n"
proof -
  have "scan_number 10 (print_int n) = Some (n, [])"
    using scan_number_print_nat [of 10 "[]" "nat n"] scan_number_minus [of 10 "nat (- n)"]
    by (simp add: print_int_def stops_def)
  moreover have "to_long n = n" using assms by (simp add: to_long_def)
  ultimately show ?thesis
    using assms by (simp add: atoi_def scan_ld_def signed_take_bit_int_eq_self)
qed

section \<open>Long options\<close>

text \<open>What a user may ask for, how it is written with long options, and what it changes.\<close>

datatype setting = Board string | Cpu int | Export | Fetcher | Udmabuf int | Ksight | Verbose "int option"

fun long_form :: "setting \<Rightarrow> string" where
  "long_form (Board b) = ''--board='' @ b"
| "long_form (Cpu n) = ''--cpu='' @ print_int n"
| "long_form Export = ''--export''"
| "long_form Fetcher = ''--fetcher''"
| "long_form (Udmabuf n) = ''--udmabuf='' @ print_int n"
| "long_form Ksight = ''--ksight''"
| "long_form (Verbose None) = ''--verbose''"
| "long_form (Verbose (Some n)) = ''--verbose='' @ print_int n"

fun setting_ok :: "setting \<Rightarrow> bool" where
  "setting_ok (Cpu n) \<longleftrightarrow> - (2 ^ 31) \<le> n \<and> n < 2 ^ 31"
| "setting_ok (Udmabuf n) \<longleftrightarrow> - (2 ^ 31) \<le> n \<and> n < 2 ^ 31"
| "setting_ok (Verbose (Some n)) \<longleftrightarrow> - (2 ^ 31) \<le> n \<and> n < 2 ^ 31"
| "setting_ok _ \<longleftrightarrow> True"

fun apply_setting :: "setting \<Rightarrow> 'z globals_scheme \<Rightarrow> 'z globals_scheme" where
  "apply_setting (Board b) s = s\<lparr>board_name := b\<rparr>"
| "apply_setting (Cpu n) s = s\<lparr>trace_cpu := n\<rparr>"
| "apply_setting Export s = s\<lparr>export_config := True\<rparr>"
| "apply_setting Fetcher s = s\<lparr>fetcher_on := True\<rparr>"
| "apply_setting (Udmabuf n) s = s\<lparr>udmabuf_num := n\<rparr>"
| "apply_setting Ksight s = s\<lparr>ksight_on := True\<rparr>"
| "apply_setting (Verbose n) s = s\<lparr>registration_verbose := (case n of Some n \<Rightarrow> n | None \<Rightarrow> 1)\<rparr>"

fun option_of :: "setting \<Rightarrow> opt" where
  "option_of (Board b) = Opt (CHR ''b'') (Some b)"
| "option_of (Cpu n) = Opt (CHR ''c'') (Some (print_int n))"
| "option_of Export = Opt (CHR ''e'') None"
| "option_of Fetcher = Opt (CHR ''f'') None"
| "option_of (Udmabuf n) = Opt (CHR ''u'') (Some (print_int n))"
| "option_of Ksight = Opt (CHR ''k'') None"
| "option_of (Verbose n) = Opt (CHR ''v'') (map_option print_int n)"

lemma find_long_option [simp]:
  "find_long long_options ''board'' = Some (required_argument, CHR ''b'')"
  "find_long long_options ''cpu'' = Some (required_argument, CHR ''c'')"
  "find_long long_options ''export'' = Some (no_argument, CHR ''e'')"
  "find_long long_options ''fetcher'' = Some (no_argument, CHR ''f'')"
  "find_long long_options ''udmabuf'' = Some (required_argument, CHR ''u'')"
  "find_long long_options ''ksight'' = Some (no_argument, CHR ''k'')"
  "find_long long_options ''verbose'' = Some (optional_argument, CHR ''v'')"
  "find_long long_options ''help'' = Some (no_argument, CHR ''h'')"
  by (simp_all add: find_long_def long_options_def)

lemma element_long_form: "element tab long_options (long_form x) nxt = ([option_of x], False)"
  by (cases x rule: long_form.cases) (simp_all add: element_def long_option_def)

lemma long_form_option: "is_option (long_form x) \<and> long_form x \<noteq> ''--''"
  by (cases x rule: long_form.cases) (simp_all add: is_option_def)

lemma getopt_long_forms:
  "getopt_long tab long_options (map long_form xs @ ''--'' # prog) ns bs =
     (map option_of xs, bs @ map long_form xs @ [''--''], ns @ prog)"
proof (induction xs arbitrary: bs)
  case (Cons x xs)
  then show ?case using long_form_option [of x] by (simp add: element_long_form)
qed simp

lemma switch_option_of: "setting_ok x \<Longrightarrow> switch (option_of x) s = Some (Inr (apply_setting x s))"
  by (cases x rule: setting_ok.cases) (simp_all add: switch_def atoi_print_int)

lemma switches_option_of:
  "\<forall>x \<in> set xs. setting_ok x \<Longrightarrow> switches (map option_of xs) s = Some (Inr (fold apply_setting xs s))"
  by (induction xs arbitrary: s) (simp_all add: switch_option_of)

lemma parse_long_options:
  "\<forall>x \<in> set xs. setting_ok x \<Longrightarrow> prog \<noteq> [] \<Longrightarrow> parse_cli (argv0 # map long_form xs @ ''--'' # prog) s =
     Some (Trace prog, fold apply_setting xs (s\<lparr>registration_verbose := 0\<rparr>))"
  by (cases prog) (simp_all add: parse_cli_def getopt_long_forms switches_option_of)

text \<open>C6. Every request written with long options is understood: for any list of settings, in any order, followed by
  \<open>--\<close> and a command, \<open>main\<close> applies exactly these settings and traces exactly this command.\<close>

theorem long_options_roundtrip:
  assumes "\<forall>x \<in> set xs. setting_ok x" and "prog \<noteq> []"
  shows "parse_cli (argv0 # map long_form xs @ ''--'' # prog) s =
     Some (Trace prog, fold apply_setting xs (s\<lparr>registration_verbose := 0\<rparr>))"
  by (rule parse_long_options [OF assms])

text \<open>C39. The short forms of the flags take an argument, although their long forms and the usage text do not: the element after
  \<open>-e\<close>, \<open>-f\<close> or \<open>-k\<close>, whatever it is, is swallowed. So in \<open>-f -k -- prog\<close> the second flag has no effect.\<close>

theorem short_flag_swallows_next:
  assumes "(c, x) \<in> {(CHR ''e'', Export), (CHR ''f'', Fetcher), (CHR ''k'', Ksight)}" and "prog \<noteq> []"
  shows "parse_cli (argv0 # [CHR ''-'', c] # arg # ''--'' # prog) s =
     Some (Trace prog, apply_setting x (s\<lparr>registration_verbose := 0\<rparr>))"
proof -
  have "short_options optstring [c] (Some arg) = ([Opt c (Some arg)], True)" and "c \<noteq> CHR ''-''"
    using assms(1) by (auto simp: optstring_def)
  moreover have "switch (Opt c (Some arg)) t = Some (Inr (apply_setting x t))" for t :: "'a globals_scheme"
    using assms(1) by (auto simp: switch_def)
  ultimately show ?thesis
    using assms(2) by (cases prog) (simp_all add: parse_cli_def is_option_def element_def)
qed

text \<open>Elements in front of \<open>--\<close> that are no options become the command: \<open>main\<close> only checks that \<open>--\<close> stands before
  the operands, after \<open>getopt_long\<close> has moved them. As the string of short options lacks the documented \<open>-u\<close>, the
  command line \<open>-u 1 -- prog\<close> ignores the option and traces the program \<open>1\<close> with the argument \<open>prog\<close>.\<close>

theorem operands_before_dashes_traced:
  assumes "\<not> is_option x"
  shows "parse_cli (argv0 # x # ''--'' # prog) s = Some (Trace (x # prog), s\<lparr>registration_verbose := 0\<rparr>) \<and>
     parse_cli (argv0 # ''-u'' # x # ''--'' # prog) s = Some (Trace (x # prog), s\<lparr>registration_verbose := 0\<rparr>)"
proof -
  have "x \<noteq> ''--''" using assms by (auto simp: is_option_def)
  then show ?thesis
    using assms by (simp add: parse_cli_def is_option_def element_def optstring_def switch_def)
qed

section \<open>Options with their arguments\<close>

text \<open>The options whose argument \<open>main\<close> uses have one.\<close>

fun opt_ok :: "opt \<Rightarrow> bool" where
  "opt_ok (Opt c a) \<longleftrightarrow> (c \<in> set ''bcu'' \<longrightarrow> a \<noteq> None)"
| "opt_ok Bad_opt \<longleftrightarrow> True"

lemma short_option_required:
  "short_option optstring c = Some k \<Longrightarrow> c \<in> set ''bcu'' \<Longrightarrow> k = required_argument"
  by (auto simp: optstring_def)

lemma short_options_ok: "x \<in> set (fst (short_options optstring cs nxt)) \<Longrightarrow> opt_ok x"
proof (induction optstring cs nxt rule: short_options.induct)
  case (2 c cs nxt)
  show ?case
  proof (cases "short_option optstring c")
    case None
    with 2 show ?thesis by auto
  next
    case (Some k)
    show ?thesis
    proof (cases k)
      case no_argument
      with Some 2 show ?thesis using short_option_required [OF Some] by auto
    next
      case required_argument
      with Some 2(3) show ?thesis by (auto split: if_splits option.splits)
    next
      case optional_argument
      with Some 2(3) show ?thesis using short_option_required [OF Some] by auto
    qed
  qed
qed simp

lemma find_long_required: "find_long long_options n = Some (k, c) \<Longrightarrow> c \<in> set ''bcu'' \<Longrightarrow> k = required_argument"
proof -
  have tab: "(m, k, c) \<in> set long_options \<Longrightarrow> c \<in> set ''bcu'' \<Longrightarrow> k = required_argument" for m
    by (auto simp: long_options_def)
  assume f: "find_long long_options n = Some (k, c)" and c: "c \<in> set ''bcu''"
  have "\<exists>m. (m, k, c) \<in> set long_options"
  proof (cases "map_of long_options n")
    case None
    with f obtain m where "filter (\<lambda>(m, _). prefix n m) long_options = [(m, k, c)]"
      by (auto simp: find_long_def split: list.splits)
    then have "(m, k, c) \<in> set (filter (\<lambda>(m, _). prefix n m) long_options)" by simp
    then show ?thesis by auto
  next
    case (Some e)
    then show ?thesis using f by (auto simp: find_long_def dest: map_of_SomeD)
  qed
  then show ?thesis using tab c by blast
qed

lemma long_option_ok: "x \<in> set (fst (long_option long_options body nxt)) \<Longrightarrow> opt_ok x"
proof -
  assume x: "x \<in> set (fst (long_option long_options body nxt))"
  let ?n = "takeWhile (\<lambda>c. c \<noteq> CHR ''='') body"
  show ?thesis
  proof (cases "find_long long_options ?n")
    case None
    with x show ?thesis by (simp add: long_option_def)
  next
    case (Some e)
    then obtain k c where kc: "find_long long_options ?n = Some (k, c)" by (cases e) simp
    with x find_long_required [OF kc] show ?thesis
      by (cases k) (auto simp: long_option_def split: option.splits list.splits if_splits)
  qed
qed

lemma element_ok: "x \<in> set (fst (element optstring long_options a nxt)) \<Longrightarrow> opt_ok x"
  by (auto simp: element_def short_options_ok long_option_ok split: if_splits)

lemma getopt_long_ok: "x \<in> set (fst (getopt_long optstring long_options args ns bs)) \<Longrightarrow> opt_ok x"
proof (induction optstring long_options args ns bs rule: getopt_long.induct)
  case (2 a as ns bs)
  obtain os used where e: "element optstring long_options a (case as of [] \<Rightarrow> None | x # _ \<Rightarrow> Some x) = (os, used)"
    by fastforce
  then have "\<forall>x \<in> set os. opt_ok x" using element_ok [of _ a] by (metis fst_conv)
  with 2 e show ?case by (auto split: if_splits)
qed simp

lemma switches_ok: "\<forall>x \<in> set xs. opt_ok x \<Longrightarrow> switches xs s \<noteq> None \<and> (switches xs s = Some (Inl n) \<longrightarrow> n = 0)"
proof (induction xs arbitrary: s)
  case (Cons x xs)
  then have "switch x s \<noteq> None" "switch x s = Some (Inl n) \<Longrightarrow> n = 0"
    by (cases x; auto simp: switch_def split: if_splits)+
  with Cons show ?case by (auto split: option.split sum.split)
qed simp

text \<open>C37. Whatever the arguments are, the parsing ends without a crash (\<open>atoi\<close> never gets a null pointer), in one of three ways:
  exit with status 0 (too few arguments, or help), exit with status 1, or a command with at least a program name.\<close>

theorem parse_cli_total:
  "\<exists>r s'. parse_cli argv s = Some (r, s') \<and> (r = Exit 0 \<or> r = Exit 1 \<or> (\<exists>p args. r = Trace (p # args)))"
proof (cases "length argv < 3")
  case False
  obtain os before operands where g: "getopt_long optstring long_options (tl argv) [] [] = (os, before, operands)"
    by (cases "getopt_long optstring long_options (tl argv) [] []")
  let ?s = "s\<lparr>registration_verbose := 0\<rparr>"
  have "\<forall>x \<in> set os. opt_ok x" using getopt_long_ok [of _ "tl argv" "[]" "[]"] g by simp
  from switches_ok [OF this, of ?s] obtain y where y: "switches os ?s = Some y" and l: "\<And>n. y = Inl n \<Longrightarrow> n = 0" by auto
  show ?thesis
  proof (cases y)
    case (Inl n)
    with False g y l show ?thesis by (simp add: parse_cli_def)
  next
    case (Inr t)
    with False g y show ?thesis by (cases operands) (simp_all add: parse_cli_def)
  qed
qed (simp add: parse_cli_def)

section \<open>The child and the tracer\<close>

lemma child_missing:
  assumes "\<And>h. a_int E h (OS (Access prog False)) \<noteq> 0"
  shows "\<exists>t'. child E (prog # args) t = Some (Child_exit 1, t')"
  using assms by (simp add: child_def ask_defs)

lemma waits_for_failed_child:
  assumes "reachable E v ppid pid s0 st" and "\<And>h. a_wait E h (OS (Waitpid pid)) = Exited n" and "n \<noteq> 0"
  shows "main st \<in> {M_first, M_loop} \<and> fetcher st = F_none"
  using assms(1)
proof (induction rule: reachable.induct)
  case (r_step st st')
  from r_step(2) show ?case
    using r_step(3) assms(2,3)
    by (cases rule: tstep.cases) (auto simp: waitpid_def ask_def handle_status_def elim: fstep_none)
qed simp

text \<open>C38. A program that does not exist makes the tracer spin for ever: the child exits with status 1 before it is traced, and
  the main thread, in all states it can reach, waits in its loop, always able to go round once more, never past it.\<close>

theorem missing_program_hangs:
  assumes "\<And>h. a_int Ec h (OS (Access prog False)) \<noteq> 0" and "child Ec (prog # args) t = Some (r, t')"
    and "\<And>n h. r = Child_exit n \<Longrightarrow> a_wait E h (OS (Waitpid pid)) = Exited n" and "reachable E v ppid pid s0 st"
  shows "r = Child_exit 1 \<and> main st \<in> {M_first, M_loop} \<and> (\<exists>st'. tstep E v ppid pid st st' \<and> main st' = M_loop)"
proof -
  have r: "r = Child_exit 1" using child_missing [OF assms(1), of args t] assms(2) by auto
  have w: "a_wait E h (OS (Waitpid pid)) = Exited 1" for h using assms(3) r by simp
  have st: "main st \<in> {M_first, M_loop}" using waits_for_failed_child [OF assms(4) w] by simp
  let ?s = "vars st"
  have q: "waitpid E pid ?s = Some (Exited 1, ?s\<lparr>hist := hist ?s @ [OS (Waitpid pid)]\<rparr>)"
    by (simp add: waitpid_def ask_def w)
  have hs: "handle_status (Exited 1) t = (M_loop, t)" for t :: globals by (simp add: handle_status_def)
  have "\<exists>st'. tstep E v ppid pid st st' \<and> main st' = M_loop"
    using st tstep.t_first [OF q, of v ppid "fetcher st"] tstep.t_loop [OF q hs, of v ppid "fetcher st"]
    by (cases st) fastforce
  with r st show ?thesis by simp
qed

section \<open>Witnesses\<close>

theorem long_options_roundtrip_witness:
  "parse_cli (''cs-trace'' # map long_form [Cpu 2, Fetcher, Verbose (Some 3)] @ ''--'' # [''./a.out'', ''x'']) initial_globals =
     Some (Trace [''./a.out'', ''x''], initial_globals\<lparr>trace_cpu := 2, fetcher_on := True, registration_verbose := 3\<rparr>)"
  by (subst long_options_roundtrip) (simp_all add: initial_globals_def)

theorem short_flag_swallows_next_witness:
  "parse_cli [''cs-trace'', ''-f'', ''-k'', ''--'', ''./a.out''] initial_globals =
     Some (Trace [''./a.out''], initial_globals\<lparr>fetcher_on := True\<rparr>)"
  using short_flag_swallows_next [of "CHR ''f''" Fetcher "[''./a.out'']" "''cs-trace''" "''-k''" initial_globals]
  by (simp add: initial_globals_def)

theorem operands_before_dashes_traced_witness:
  "parse_cli [''cs-trace'', ''-u'', ''1'', ''--'', ''./a.out''] initial_globals = Some (Trace [''1'', ''./a.out''], initial_globals)"
  using operands_before_dashes_traced [of "''1''" "''cs-trace''" "[''./a.out'']" initial_globals]
  by (simp add: is_option_def initial_globals_def)

definition no_program_env :: env where
  "no_program_env = sample_env\<lparr>a_int := (\<lambda>_ _. -1), a_wait := (\<lambda>_ _. Exited 1)\<rparr>"

theorem missing_program_hangs_witness:
  "\<exists>t' st'. child no_program_env [''nofile''] initial_globals = Some (Child_exit 1, t') \<and>
     tstep no_program_env any_locals 1 77 \<lparr>main = M_first, fetcher = F_none, vars = initial_globals\<rparr> st' \<and> main st' = M_loop"
proof -
  have a: "a_int no_program_env h (OS (Access ''nofile'' False)) \<noteq> 0" for h by (simp add: no_program_env_def)
  from child_missing [OF a, of "[]" initial_globals] obtain t' where
    c: "child no_program_env [''nofile''] initial_globals = Some (Child_exit 1, t')" by blast
  have w: "a_wait no_program_env h (OS (Waitpid 77)) = Exited n" if "Child_exit 1 = Child_exit n" for n h
    using that by (simp add: no_program_env_def)
  from missing_program_hangs [OF a c w reachable.r_init] c show ?thesis by blast
qed

end
