(* ===== verification/Boards.thy ===== *)
theory Boards
  imports TraceState
begin

text \<open>
  The boards of \<open>include/known_boards.h\<close>: the registration of the CoreSight devices of the ZCU-104 and the ZYNQ-7000
  with CSAL. A registration is a sequence of CSAL calls; what it tells CSAL about the trace bus (ATB) is read
  back from the calls as a graph. The main result is that, on every known board, the trace of every CPU reaches the
  buffer and the port that the board names as its sinks.
\<close>

section \<open>Single registrations\<close>

text \<open>\<open>cs_device_set_affinity(cs_device_register(addr), cpu)\<close> and the other nested calls.\<close>

definition affinity :: "env \<Rightarrow> u64 \<Rightarrow> nat \<Rightarrow> 'z world_scheme \<Rightarrow> (unit \<times> 'z world_scheme) option" where
  "affinity E addr cpu s = do {
     (d, s) \<leftarrow> ask (a_dev E) (CS (Cs_device_register addr)) s;
     (_, s) \<leftarrow> cs_int E (Cs_device_set_affinity d cpu) s;
     Some ((), s)
   }"

definition cs_device_get :: "env \<Rightarrow> u64 \<Rightarrow> 'z world_scheme \<Rightarrow> (cs_device \<times> 'z world_scheme) option" where
  "cs_device_get E addr s = ask (a_dev E) (CS (Cs_device_get addr)) s"

definition atb_source :: "env \<Rightarrow> nat \<Rightarrow> cs_device \<Rightarrow> nat \<Rightarrow> 'z world_scheme \<Rightarrow> (unit \<times> 'z world_scheme) option" where
  "atb_source E cpu dst port s = do {
     (d, s) \<leftarrow> ask (a_dev E) (CS (Cs_cpu_get_device cpu)) s;
     (_, s) \<leftarrow> cs_int E (Cs_atb_register d 0 dst port) s;
     Some ((), s)
   }"

definition trigsrc :: "env \<Rightarrow> cs_device \<Rightarrow> cs_trigger \<Rightarrow> cs_device \<Rightarrow> nat \<Rightarrow> 'z world_scheme \<Rightarrow> (unit \<times> 'z world_scheme) option" where
  "trigsrc E d trig cti port s = do {
     (t, s) \<leftarrow> ask (a_u64 E) (CS (Cs_cti_trigsrc cti port)) s;
     (_, s) \<leftarrow> cs_int E (Cs_cti_connect_trigsrc d trig t) s;
     Some ((), s)
   }"

definition trigdst :: "env \<Rightarrow> cs_device \<Rightarrow> nat \<Rightarrow> cs_device \<Rightarrow> cs_trigger \<Rightarrow> 'z world_scheme \<Rightarrow> (unit \<times> 'z world_scheme) option" where
  "trigdst E cti port d trig s = do {
     (t, s) \<leftarrow> ask (a_u64 E) (CS (Cs_cti_trigdst cti port)) s;
     (_, s) \<leftarrow> cs_int E (Cs_cti_connect_trigdst t d trig) s;
     Some ((), s)
   }"

section \<open>ZCU-104\<close>

definition zcu104_affinities :: "env \<Rightarrow> 'z world_scheme \<Rightarrow> (unit \<times> 'z world_scheme) option" where
  "zcu104_affinities E s = do {
     (_, s) \<leftarrow> affinity E 0xFEC20000 0 s;
     (_, s) \<leftarrow> affinity E 0xFED20000 1 s;
     (_, s) \<leftarrow> affinity E 0xFEE20000 2 s;
     (_, s) \<leftarrow> affinity E 0xFEF20000 3 s;
     (_, s) \<leftarrow> affinity E 0xFEC30000 0 s;
     (_, s) \<leftarrow> affinity E 0xFED30000 1 s;
     (_, s) \<leftarrow> affinity E 0xFEE30000 2 s;
     (_, s) \<leftarrow> affinity E 0xFEF30000 3 s;
     (_, s) \<leftarrow> affinity E 0xFEC40000 0 s;
     (_, s) \<leftarrow> affinity E 0xFED40000 1 s;
     (_, s) \<leftarrow> affinity E 0xFEE40000 2 s;
     affinity E 0xFEF40000 3 s
   }"

text \<open>The cross triggers of the two ETFs, the ETR, the TPIU and the STM.\<close>

definition zcu104_triggers ::
  "env \<Rightarrow> cs_device \<Rightarrow> cs_device \<Rightarrow> cs_device \<Rightarrow> cs_device \<Rightarrow> cs_device \<Rightarrow> 'z world_scheme \<Rightarrow> (unit \<times> 'z world_scheme) option" where
  "zcu104_triggers E etf1 etf2 etr tp stm s = do {
     (cti0, s) \<leftarrow> ask (a_dev E) (CS (Cs_device_register 0xFE990000)) s;
     (cti1, s) \<leftarrow> ask (a_dev E) (CS (Cs_device_register 0xFE9A0000)) s;
     (_, s) \<leftarrow> trigsrc E etf1 CS_TRIGOUT_ETB_FULL cti0 0 s;
     (_, s) \<leftarrow> trigsrc E etf1 CS_TRIGOUT_ETB_ACQCOMP cti0 1 s;
     (_, s) \<leftarrow> trigsrc E etf2 CS_TRIGOUT_ETB_FULL cti0 2 s;
     (_, s) \<leftarrow> trigsrc E etf2 CS_TRIGOUT_ETB_ACQCOMP cti0 3 s;
     (_, s) \<leftarrow> trigdst E cti0 0 etf1 CS_TRIGIN_ETB_FLUSHIN s;
     (_, s) \<leftarrow> trigdst E cti0 1 etf1 CS_TRIGIN_ETB_TRIGIN s;
     (_, s) \<leftarrow> trigdst E cti0 2 etf2 CS_TRIGIN_ETB_FLUSHIN s;
     (_, s) \<leftarrow> trigdst E cti0 3 etf2 CS_TRIGIN_ETB_TRIGIN s;
     (_, s) \<leftarrow> trigsrc E etr CS_TRIGOUT_ETB_FULL cti0 4 s;
     (_, s) \<leftarrow> trigsrc E etr CS_TRIGOUT_ETB_ACQCOMP cti0 5 s;
     (_, s) \<leftarrow> trigdst E cti0 4 etr CS_TRIGIN_ETB_FLUSHIN s;
     (_, s) \<leftarrow> trigdst E cti0 5 etr CS_TRIGIN_ETB_TRIGIN s;
     (_, s) \<leftarrow> trigdst E cti0 6 tp CS_TRIGIN_ETB_FLUSHIN s;
     (_, s) \<leftarrow> trigdst E cti0 7 tp CS_TRIGIN_ETB_TRIGIN s;
     (_, s) \<leftarrow> trigsrc E stm CS_TRIGOUT_STM_TRIGOUTSPTE cti1 4 s;
     (_, s) \<leftarrow> trigsrc E stm CS_TRIGOUT_STM_TRIGOUTSW cti1 5 s;
     (_, s) \<leftarrow> trigsrc E stm CS_TRIGOUT_STM_TRIGOUTHETE cti1 6 s;
     trigsrc E stm CS_TRIGOUT_STM_ASYNCOUT cti1 7 s
   }"

definition do_registration_zcu104 ::
  "env \<Rightarrow> cs_devices \<Rightarrow> 'z world_scheme \<Rightarrow> ((int \<times> cs_devices) \<times> 'z world_scheme) option" where
  "do_registration_zcu104 E dv s = do {
     (_, s) \<leftarrow> cs_int E (Cs_exclude_range 0xFE9E0000 0xFEC00000) s;
     (_, s) \<leftarrow> cs_int E (Cs_register_romtable 0xFE800000) s;
     (_, s) \<leftarrow> zcu104_affinities E s;
     (stm, s) \<leftarrow> cs_device_get E 0xFE9C0000 s;
     let dv = dv\<lparr>itm := stm\<rparr>;
     (_, s) \<leftarrow> cs_int E (Cs_stm_config_master stm 0 0xF8000000) s;
     (_, s) \<leftarrow> cs_int E (Cs_stm_select_master stm 0) s;
     (ftm, s) \<leftarrow> cs_device_get E 0xFE9D0000 s;
     (ts, s) \<leftarrow> cs_device_get E 0xFE900000 s;
     (funnel1, s) \<leftarrow> cs_device_get E 0xFE920000 s;
     (_, s) \<leftarrow> atb_source E 0 funnel1 0 s;
     (_, s) \<leftarrow> atb_source E 1 funnel1 1 s;
     (_, s) \<leftarrow> atb_source E 2 funnel1 2 s;
     (_, s) \<leftarrow> atb_source E 3 funnel1 3 s;
     (etf1, s) \<leftarrow> cs_device_get E 0xFE940000 s;
     (_, s) \<leftarrow> cs_int E (Cs_atb_register funnel1 0 etf1 0) s;
     (funnel2, s) \<leftarrow> cs_device_get E 0xFE930000 s;
     (_, s) \<leftarrow> cs_int E (Cs_atb_register stm 0 funnel2 0) s;
     (_, s) \<leftarrow> cs_int E (Cs_atb_register etf1 0 funnel2 2) s;
     (etf2, s) \<leftarrow> cs_device_get E 0xFE950000 s;
     (_, s) \<leftarrow> cs_int E (Cs_atb_register funnel2 0 etf2 0) s;
     (rep, s) \<leftarrow> ask (a_dev E) (CS (Cs_atb_add_replicator 2)) s;
     (_, s) \<leftarrow> cs_int E (Cs_atb_register etf2 0 rep 0) s;
     (etr, s) \<leftarrow> cs_device_get E 0xFE970000 s;
     (_, s) \<leftarrow> cs_int E (Cs_atb_register rep 0 etr 0) s;
     (tp, s) \<leftarrow> cs_device_get E 0xFE980000 s;
     (_, s) \<leftarrow> cs_int E (Cs_atb_register rep 1 tp 0) s;
     let dv = dv\<lparr>etb := etr, tpiu := tp, trace_sinks := (trace_sinks dv)(0 := etf1, 1 := etf2), num_trace_sinks := 2\<rparr>;
     (_, s) \<leftarrow> zcu104_triggers E etf1 etf2 etr tp stm s;
     Some ((0, dv\<lparr>tsgen := ts, cpu_id := (cpu_id dv)(0 := 0xD03, 1 := 0xD03, 2 := 0xD03, 3 := 0xD03)\<rparr>), s)
   }"

section \<open>ZYNQ-7000\<close>

definition do_registration_zynq7000 ::
  "env \<Rightarrow> cs_devices \<Rightarrow> 'z world_scheme \<Rightarrow> ((int \<times> cs_devices) \<times> 'z world_scheme) option" where
  "do_registration_zynq7000 E dv s = do {
     (_, s) \<leftarrow> cs_int E (Cs_register_romtable 0xF8880000) s;
     (_, s) \<leftarrow> affinity E 0xF8898000 0 s;
     (_, s) \<leftarrow> affinity E 0xF8899000 1 s;
     (_, s) \<leftarrow> affinity E 0xF8891000 0 s;
     (_, s) \<leftarrow> affinity E 0xF8893000 1 s;
     (_, s) \<leftarrow> affinity E 0xF889C000 0 s;
     (_, s) \<leftarrow> affinity E 0xF889D000 1 s;
     (funnel, s) \<leftarrow> cs_device_get E 0xF8804000 s;
     (_, s) \<leftarrow> atb_source E 0 funnel 0 s;
     (_, s) \<leftarrow> atb_source E 1 funnel 1 s;
     (rep, s) \<leftarrow> ask (a_dev E) (CS (Cs_atb_add_replicator 2)) s;
     (_, s) \<leftarrow> cs_int E (Cs_atb_register funnel 0 rep 0) s;
     (tp, s) \<leftarrow> cs_device_get E 0xF8803000 s;
     (_, s) \<leftarrow> cs_int E (Cs_atb_register rep 0 tp 0) s;
     (eb, s) \<leftarrow> cs_device_get E 0xF8801000 s;
     (_, s) \<leftarrow> cs_int E (Cs_atb_register rep 1 eb 0) s;
     Some ((0, dv\<lparr>etb := eb, tpiu := tp, num_trace_sinks := 0\<rparr>), s)
   }"

section \<open>The table of boards\<close>

record 'z known_board =
  kb_board :: board_t
  do_registration :: "env \<Rightarrow> cs_devices \<Rightarrow> 'z world_scheme \<Rightarrow> ((int \<times> cs_devices) \<times> 'z world_scheme) option"

text \<open>The empty entry at the end of the array only marks its end.\<close>

definition known_boards :: "'z known_board list" where
  "known_boards =
     [\<lparr>kb_board = \<lparr>hardware = ''ZCU-104'', n_cpu = 4, etr_axictl = 0\<rparr>, do_registration = do_registration_zcu104\<rparr>,
      \<lparr>kb_board = \<lparr>hardware = ''ZYNQ-7000'', n_cpu = 2, etr_axictl = 0\<rparr>, do_registration = do_registration_zynq7000\<rparr>]"

section \<open>The trace bus as registered\<close>

text \<open>What the program relies on: CSAL identifies a device by its address, and a CPU by its number.\<close>

definition registry :: "env \<Rightarrow> (u64 \<Rightarrow> cs_device) \<Rightarrow> cs_device \<Rightarrow> (nat \<Rightarrow> cs_device) \<Rightarrow> bool" where
  "registry E dev rep src \<longleftrightarrow> (\<forall>h a. a_dev E h (CS (Cs_device_get a)) = dev a) \<and>
     (\<forall>h a. a_dev E h (CS (Cs_device_register a)) = dev a) \<and>
     (\<forall>h k. a_dev E h (CS (Cs_atb_add_replicator k)) = rep) \<and> (\<forall>h i. a_dev E h (CS (Cs_cpu_get_device i)) = src i)"

text \<open>The links in the calls, from an output port to an input port, and the graph of the devices.\<close>

definition link_of :: "call \<Rightarrow> ((cs_device \<times> nat) \<times> (cs_device \<times> nat)) option" where
  "link_of c = (case c of CS (Cs_atb_register a p b q) \<Rightarrow> Some ((a, p), (b, q)) | _ \<Rightarrow> None)"

definition atb_links :: "call list \<Rightarrow> ((cs_device \<times> nat) \<times> (cs_device \<times> nat)) list" where
  "atb_links cs = List.map_filter link_of cs"

definition graph :: "((cs_device \<times> nat) \<times> (cs_device \<times> nat)) list \<Rightarrow> (cs_device \<times> cs_device) set" where
  "graph ls = {(a, b). \<exists>p q. ((a, p), (b, q)) \<in> set ls}"

definition feeds :: "call list \<Rightarrow> (cs_device \<times> cs_device) set" where
  "feeds cs = graph (atb_links cs)"

lemma graphI: "((a, p), (b, q)) \<in> set ls \<Longrightarrow> (a, b) \<in> graph ls"
  by (auto simp: graph_def)

text \<open>The ports of the cross trigger interfaces that are connected: inputs and outputs.\<close>

definition trigger_port :: "call \<Rightarrow> (bool \<times> cs_device \<times> nat) option" where
  "trigger_port c = (case c of CS (Cs_cti_trigsrc d p) \<Rightarrow> Some (True, d, p) | CS (Cs_cti_trigdst d p) \<Rightarrow> Some (False, d, p) | _ \<Rightarrow> None)"

definition trigger_ports :: "call list \<Rightarrow> (bool \<times> cs_device \<times> nat) list" where
  "trigger_ports cs = List.map_filter trigger_port cs"

lemma atb_links_simps [simp]:
  "atb_links [] = []" "atb_links (c # cs) = (case link_of c of None \<Rightarrow> atb_links cs | Some l \<Rightarrow> l # atb_links cs)"
  by (simp_all add: atb_links_def split: option.split)

lemma trigger_ports_simps [simp]:
  "trigger_ports [] = []" "trigger_ports (c # cs) = (case trigger_port c of None \<Rightarrow> trigger_ports cs | Some l \<Rightarrow> l # trigger_ports cs)"
  by (simp_all add: trigger_ports_def split: option.split)

lemma atb_links_append [simp]: "atb_links (cs @ ds) = atb_links cs @ atb_links ds"
  by (induction cs) (simp_all split: option.split)

lemma trigger_ports_append [simp]: "trigger_ports (cs @ ds) = trigger_ports cs @ trigger_ports ds"
  by (induction cs) (simp_all split: option.split)

text \<open>\<open>wires s m r ls ps\<close>: the procedure ends with the result \<open>r\<close>, has only made calls, and these have registered the
  links \<open>ls\<close> and connected the trigger ports \<open>ps\<close>.\<close>

definition wires ::
  "'z world_scheme \<Rightarrow> ('a \<times> 'z world_scheme) option \<Rightarrow> 'a \<Rightarrow> ((cs_device \<times> nat) \<times> (cs_device \<times> nat)) list \<Rightarrow>
   (bool \<times> cs_device \<times> nat) list \<Rightarrow> bool" where
  "wires s m r ls ps \<longleftrightarrow>
     (\<exists>cs. m = Some (r, s\<lparr>hist := hist s @ cs\<rparr>) \<and> atb_links cs = ls \<and> trigger_ports cs = ps)"

lemma wires_Some: "wires s (Some (r, s)) r [] []"
  by (auto simp: wires_def intro: exI [of _ "[]"])

lemma wires_Let: "wires s (f x) r ls ps \<Longrightarrow> wires s (Let x f) r ls ps"
  by simp

lemma wires_bind:
  assumes "wires s m a ls ps" and "\<And>t. wires t (f a t) r ls' ps'"
  shows "wires s (m \<bind> (\<lambda>(a, t). f a t)) r (ls @ ls') (ps @ ps')"
proof -
  from assms(1) obtain cs where m: "m = Some (a, s\<lparr>hist := hist s @ cs\<rparr>)" "atb_links cs = ls" "trigger_ports cs = ps"
    by (auto simp: wires_def)
  obtain ds where "f a (s\<lparr>hist := hist s @ cs\<rparr>) = Some (r, s\<lparr>hist := hist s @ cs @ ds\<rparr>)"
    "atb_links ds = ls'" "trigger_ports ds = ps'"
    using assms(2) [of "s\<lparr>hist := hist s @ cs\<rparr>"] by (auto simp: wires_def)
  with m show ?thesis by (auto simp: wires_def intro!: exI [of _ "cs @ ds"])
qed

lemmas registration_defs = affinity_def cs_device_get_def atb_source_def trigsrc_def trigdst_def ask_defs

lemma wires_steps:
  assumes "registry E dev rep src"
  shows "wires s (cs_device_get E a s) (dev a) [] []"
    and "wires s (ask (a_dev E) (CS (Cs_atb_add_replicator k)) s) rep [] []"
    and "wires s (ask (a_dev E) (CS (Cs_device_register a)) s) (dev a) [] []"
    and "wires s (affinity E a i s) () [] []"
    and "wires s (atb_source E i d p s) () [((src i, 0), (d, p))] []"
    and "wires s (trigsrc E d g c p s) () [] [(True, c, p)]"
    and "wires s (trigdst E c p d g s) () [] [(False, c, p)]"
    and "wires s (cs_int E (Cs_atb_register d p d' p') s) (a_int E (hist s) (CS (Cs_atb_register d p d' p'))) [((d, p), (d', p'))] []"
    and "wires s (cs_int E (Cs_exclude_range a b) s) (a_int E (hist s) (CS (Cs_exclude_range a b))) [] []"
    and "wires s (cs_int E (Cs_register_romtable a) s) (a_int E (hist s) (CS (Cs_register_romtable a))) [] []"
    and "wires s (cs_int E (Cs_stm_config_master d i a) s) (a_int E (hist s) (CS (Cs_stm_config_master d i a))) [] []"
    and "wires s (cs_int E (Cs_stm_select_master d i) s) (a_int E (hist s) (CS (Cs_stm_select_master d i))) [] []"
  using assms by (simp_all add: wires_def registration_defs registry_def)
    ((rule exI, rule conjI, rule refl, simp add: link_of_def trigger_port_def)+)

text \<open>The links of the two boards.\<close>

definition zcu104_links ::
  "(u64 \<Rightarrow> cs_device) \<Rightarrow> cs_device \<Rightarrow> (nat \<Rightarrow> cs_device) \<Rightarrow> ((cs_device \<times> nat) \<times> (cs_device \<times> nat)) list" where
  "zcu104_links dev rep src =
     map (\<lambda>i. ((src i, 0), (dev 0xFE920000, i))) [0, 1, 2, 3] @
     [((dev 0xFE920000, 0), (dev 0xFE940000, 0)), ((dev 0xFE9C0000, 0), (dev 0xFE930000, 0)),
      ((dev 0xFE940000, 0), (dev 0xFE930000, 2)), ((dev 0xFE930000, 0), (dev 0xFE950000, 0)),
      ((dev 0xFE950000, 0), (rep, 0)), ((rep, 0), (dev 0xFE970000, 0)), ((rep, 1), (dev 0xFE980000, 0))]"

definition zynq7000_links ::
  "(u64 \<Rightarrow> cs_device) \<Rightarrow> cs_device \<Rightarrow> (nat \<Rightarrow> cs_device) \<Rightarrow> ((cs_device \<times> nat) \<times> (cs_device \<times> nat)) list" where
  "zynq7000_links dev rep src =
     [((src 0, 0), (dev 0xF8804000, 0)), ((src 1, 0), (dev 0xF8804000, 1)), ((dev 0xF8804000, 0), (rep, 0)),
      ((rep, 0), (dev 0xF8803000, 0)), ((rep, 1), (dev 0xF8801000, 0))]"

definition zcu104_ports :: "(u64 \<Rightarrow> cs_device) \<Rightarrow> (bool \<times> cs_device \<times> nat) list" where
  "zcu104_ports dev =
     map (\<lambda>p. (True, dev 0xFE990000, p)) [0, 1, 2, 3] @ map (\<lambda>p. (False, dev 0xFE990000, p)) [0, 1, 2, 3] @
     map (\<lambda>p. (True, dev 0xFE990000, p)) [4, 5] @ map (\<lambda>p. (False, dev 0xFE990000, p)) [4, 5, 6, 7] @
     map (\<lambda>p. (True, dev 0xFE9A0000, p)) [4, 5, 6, 7]"

definition zcu104_devices :: "(u64 \<Rightarrow> cs_device) \<Rightarrow> cs_devices \<Rightarrow> cs_devices" where
  "zcu104_devices dev dv = dv\<lparr>itm := dev 0xFE9C0000, etb := dev 0xFE970000, tpiu := dev 0xFE980000,
     trace_sinks := (trace_sinks dv)(0 := dev 0xFE940000, 1 := dev 0xFE950000), num_trace_sinks := 2, tsgen := dev 0xFE900000,
     cpu_id := (cpu_id dv)(0 := 0xD03, 1 := 0xD03, 2 := 0xD03, 3 := 0xD03)\<rparr>"

lemma wires_eq: "wires s m r ls ps \<Longrightarrow> r = r' \<Longrightarrow> ls = ls' \<Longrightarrow> ps = ps' \<Longrightarrow> wires s m r' ls' ps'"
  by simp

lemma zcu104_affinities_wires:
  assumes "registry E dev rep src"
  shows "wires s (zcu104_affinities E s) () [] []"
  unfolding zcu104_affinities_def
  by (rule wires_eq, (rule wires_bind wires_steps [OF assms])+) simp_all

lemma zcu104_triggers_wires:
  assumes "registry E dev rep src"
  shows "wires s (zcu104_triggers E etf1 etf2 etr tp stm s) () [] (zcu104_ports dev)"
  unfolding zcu104_triggers_def
  by (rule wires_eq, (rule wires_bind wires_steps [OF assms])+) (simp_all add: zcu104_ports_def)

lemma zcu104_wires:
  assumes "registry E dev rep src"
  shows "wires s (do_registration_zcu104 E dv s) (0, zcu104_devices dev dv) (zcu104_links dev rep src) (zcu104_ports dev)"
  unfolding do_registration_zcu104_def
  by (rule wires_eq, (rule wires_bind wires_Let wires_Some wires_steps [OF assms] zcu104_affinities_wires [OF assms]
      zcu104_triggers_wires [OF assms])+) (simp_all add: zcu104_links_def zcu104_devices_def)

lemma zynq7000_wires:
  assumes "registry E dev rep src"
  shows "wires s (do_registration_zynq7000 E dv s) (0, dv\<lparr>etb := dev 0xF8801000, tpiu := dev 0xF8803000, num_trace_sinks := 0\<rparr>)
     (zynq7000_links dev rep src) []"
  unfolding do_registration_zynq7000_def
  by (rule wires_eq, (rule wires_bind wires_Some wires_steps [OF assms])+) (simp_all add: zynq7000_links_def)

section \<open>The contract of a board\<close>

text \<open>What the tracer relies on in a registration for \<open>n\<close> CPUs: it succeeds, and on the bus it registers the trace of each
  CPU reaches every intermediate buffer, the final buffer and the trace port, and each intermediate buffer the final one.\<close>

definition routed :: "nat \<Rightarrow> (nat \<Rightarrow> cs_device) \<Rightarrow> cs_devices \<Rightarrow> (cs_device \<times> cs_device) set \<Rightarrow> bool" where
  "routed n src dv R \<longleftrightarrow> (\<forall>i < n. (src i, etb dv) \<in> R\<^sup>+ \<and> (src i, tpiu dv) \<in> R\<^sup>+) \<and>
     (\<forall>k < num_trace_sinks dv. (trace_sinks dv k, etb dv) \<in> R\<^sup>+ \<and> (\<forall>i < n. (src i, trace_sinks dv k) \<in> R\<^sup>+))"

locale trace_board =
  fixes reg :: "env \<Rightarrow> cs_devices \<Rightarrow> 'z world_scheme \<Rightarrow> ((int \<times> cs_devices) \<times> 'z world_scheme) option" and n :: nat
    and links :: "(u64 \<Rightarrow> cs_device) \<Rightarrow> cs_device \<Rightarrow> (nat \<Rightarrow> cs_device) \<Rightarrow> ((cs_device \<times> nat) \<times> (cs_device \<times> nat)) list"
    and ports :: "(u64 \<Rightarrow> cs_device) \<Rightarrow> (bool \<times> cs_device \<times> nat) list"
    and result :: "(u64 \<Rightarrow> cs_device) \<Rightarrow> cs_devices \<Rightarrow> cs_devices"
  assumes reg_wires: "registry E dev rep src \<Longrightarrow> wires s (reg E dv s) (0, result dev dv) (links dev rep src) (ports dev)"
    and reg_routed: "routed n src (result dev dv) (graph (links dev rep src))"
begin

lemma reg_routes:
  assumes "registry E dev rep src"
  shows "\<exists>new dv'. reg E dv s = Some ((0, dv'), s\<lparr>hist := hist s @ new\<rparr>) \<and> routed n src dv' (feeds new) \<and>
     atb_links new = links dev rep src \<and> trigger_ports new = ports dev"
proof -
  from reg_wires [OF assms, of s dv] obtain cs where "reg E dv s = Some ((0, result dev dv), s\<lparr>hist := hist s @ cs\<rparr>)"
    "atb_links cs = links dev rep src" "trigger_ports cs = ports dev" by (auto simp: wires_def)
  with reg_routed [of src dev dv rep] show ?thesis
    by (intro exI [of _ cs] exI [of _ "result dev dv"]) (simp add: feeds_def)
qed

end

lemma trancl_step: "(a, b) \<in> R \<Longrightarrow> b = c \<or> (b, c) \<in> R\<^sup>+ \<Longrightarrow> (a, c) \<in> R\<^sup>+"
  by (auto intro: trancl_into_trancl2)

lemma zcu104_routed:
  "routed 4 src (zcu104_devices dev dv) (graph (zcu104_links dev rep src))"
proof -
  let ?R = "(graph (zcu104_links dev rep src))"
  let ?f1 = "dev 0xFE920000" and ?e1 = "dev 0xFE940000" and ?f2 = "dev 0xFE930000" and ?e2 = "dev 0xFE950000"
    and ?etr = "dev 0xFE970000" and ?tp = "dev 0xFE980000"
  have l: "(src 0, ?f1) \<in> ?R" "(src 1, ?f1) \<in> ?R" "(src 2, ?f1) \<in> ?R" "(src 3, ?f1) \<in> ?R" "(?f1, ?e1) \<in> ?R" "(?e1, ?f2) \<in> ?R"
    "(?f2, ?e2) \<in> ?R" "(?e2, rep) \<in> ?R" "(rep, ?etr) \<in> ?R" "(rep, ?tp) \<in> ?R"
    by (rule graphI [of _ 0 _ 0] graphI [of _ 0 _ 1] graphI [of _ 0 _ 2] graphI [of _ 0 _ 3] graphI [of _ 1 _ 0],
        simp add: zcu104_links_def; fail)+
  have s: "(src i, ?f1) \<in> ?R" if "i < 4" for i using that l(1-4) by (auto simp: numeral_eq_Suc less_Suc_eq)
  have e2: "(?e2, ?etr) \<in> ?R\<^sup>+" "(?e2, ?tp) \<in> ?R\<^sup>+" using l(8-10) by (blast intro: trancl_step)+
  have e12: "(?e1, ?e2) \<in> ?R\<^sup>+" using l(6,7) by (blast intro: trancl_step)
  have se1: "(src i, ?e1) \<in> ?R\<^sup>+" if "i < 4" for i using s [OF that] l(5) by (blast intro: trancl_step)
  note tr = trancl_trans
  have "(src i, ?etr) \<in> ?R\<^sup>+" "(src i, ?tp) \<in> ?R\<^sup>+" "(src i, ?e2) \<in> ?R\<^sup>+" if "i < 4" for i
    using se1 [OF that] e12 e2 by (blast intro: tr)+
  moreover have "(?e1, ?etr) \<in> ?R\<^sup>+" using e12 e2(1) by (rule tr)
  ultimately show ?thesis using se1 e2(1)
    by (auto simp: routed_def zcu104_devices_def numeral_2_eq_2 less_Suc_eq)
qed

interpretation zcu104: trace_board do_registration_zcu104 4 zcu104_links zcu104_ports zcu104_devices
  by unfold_locales (rule zcu104_wires, assumption, rule zcu104_routed)

lemma zynq7000_routed:
  "routed 2 src (dv\<lparr>etb := dev 0xF8801000, tpiu := dev 0xF8803000, num_trace_sinks := 0\<rparr>)
     (graph (zynq7000_links dev rep src))"
proof -
  let ?R = "(graph (zynq7000_links dev rep src))"
  have l: "(src 0, dev 0xF8804000) \<in> ?R" "(src 1, dev 0xF8804000) \<in> ?R" "(dev 0xF8804000, rep) \<in> ?R"
    "(rep, dev 0xF8803000) \<in> ?R" "(rep, dev 0xF8801000) \<in> ?R"
    by (rule graphI [of _ 0 _ 0] graphI [of _ 0 _ 1] graphI [of _ 1 _ 0], simp add: zynq7000_links_def; fail)+
  have s: "(src i, dev 0xF8804000) \<in> ?R" if "i < 2" for i using that l(1,2) by (auto simp: numeral_eq_Suc less_Suc_eq)
  have "(src i, dev 0xF8801000) \<in> ?R\<^sup>+" "(src i, dev 0xF8803000) \<in> ?R\<^sup>+" if "i < 2" for i
    using s [OF that] l(3-5) by (blast intro: trancl_step)+
  then show ?thesis by (simp add: routed_def)
qed

interpretation zynq7000: trace_board do_registration_zynq7000 2 zynq7000_links "\<lambda>_. []"
    "\<lambda>dev dv. dv\<lparr>etb := dev 0xF8801000, tpiu := dev 0xF8803000, num_trace_sinks := 0\<rparr>"
  by unfold_locales (rule zynq7000_wires, assumption, rule zynq7000_routed)

section \<open>Properties\<close>

text \<open>C10. On every known board the registration succeeds, and on the trace bus it registers, the trace of each of the board's
  CPUs reaches all intermediate buffers, the final buffer (\<open>etb\<close>) and the trace port (\<open>tpiu\<close>).\<close>

theorem known_boards_route_traces:
  assumes "b \<in> set known_boards" and "registry E dev rep src"
  shows "\<exists>new dv'. do_registration b E dv s = Some ((0, dv'), s\<lparr>hist := hist s @ new\<rparr>) \<and>
     routed (n_cpu (kb_board b)) src dv' (feeds new)"
  using assms zcu104.reg_routes [OF assms(2), of dv s] zynq7000.reg_routes [OF assms(2), of dv s]
  by (auto simp: known_boards_def)

text \<open>C35. The wiring of the ZCU-104 is consistent: if CSAL gives distinct devices for distinct addresses, no output port of a device
  feeds two inputs, no input port is fed twice, and no port of a cross trigger interface is connected twice.\<close>

theorem zcu104_ports_distinct:
  assumes "registry E dev rep src"
    and "distinct (rep # map src [0, 1, 2, 3] @ map dev [0xFE920000, 0xFE930000, 0xFE940000, 0xFE950000, 0xFE970000,
           0xFE980000, 0xFE990000, 0xFE9A0000, 0xFE9C0000])"
  shows "\<exists>new dv'. do_registration_zcu104 E dv s = Some ((0, dv'), s\<lparr>hist := hist s @ new\<rparr>) \<and>
     distinct (map fst (atb_links new)) \<and> distinct (map snd (atb_links new)) \<and> distinct (trigger_ports new)"
proof -
  obtain new dv' where r: "do_registration_zcu104 E dv s = Some ((0, dv'), s\<lparr>hist := hist s @ new\<rparr>)"
    and l: "atb_links new = zcu104_links dev rep src" and p: "trigger_ports new = zcu104_ports dev"
    using zcu104.reg_routes [OF assms(1), of dv s] by blast
  have "distinct (map fst (zcu104_links dev rep src))" "distinct (map snd (zcu104_links dev rep src))" "distinct (zcu104_ports dev)"
    using assms(2) by (auto simp: zcu104_links_def zcu104_ports_def)
  with r l p show ?thesis by auto
qed

section \<open>Witnesses\<close>

text \<open>A registry: a device is known by its address, the replicator and the sources have small numbers.\<close>

definition registry_env :: env where
  "registry_env = sample_env\<lparr>a_dev := (\<lambda>h c. case c of
       CS (Cs_device_get a) \<Rightarrow> a | CS (Cs_device_register a) \<Rightarrow> a
     | CS (Cs_cpu_get_device i) \<Rightarrow> 0x100 + of_nat i | _ \<Rightarrow> 1)\<rparr>"

lemma registry_env_ok: "registry registry_env (\<lambda>a. a) 1 (\<lambda>i. 0x100 + of_nat i)"
  by (simp add: registry_def registry_env_def)

theorem known_boards_route_traces_witness:
  "\<exists>new dv'. do_registration_zcu104 registry_env zero_devices initial_globals = Some ((0, dv'), initial_globals\<lparr>hist := new\<rparr>) \<and>
     (0x103, etb dv') \<in> (feeds new)\<^sup>+"
proof -
  let ?b = "hd known_boards :: (_ known_board)"
  have b: "?b \<in> set known_boards" "do_registration ?b = do_registration_zcu104" "n_cpu (kb_board ?b) = 4"
    by (simp_all add: known_boards_def)
  from known_boards_route_traces [OF b(1) registry_env_ok, of zero_devices initial_globals] show ?thesis
    unfolding b(2,3) by (auto simp: routed_def initial_globals_def dest: spec [of _ 3])
qed

theorem zcu104_ports_distinct_witness:
  "\<exists>new dv'. do_registration_zcu104 registry_env zero_devices initial_globals = Some ((0, dv'), initial_globals\<lparr>hist := new\<rparr>) \<and>
     distinct (map snd (atb_links new))"
proof -
  have "distinct (1 # map (\<lambda>i. 0x100 + of_nat i) [0, 1, 2, 3] @ map (\<lambda>a. a) [0xFE920000, 0xFE930000, 0xFE940000, 0xFE950000,
      0xFE970000, 0xFE980000, 0xFE990000, 0xFE9A0000, 0xFE9C0000 :: cs_device])" by simp
  from zcu104_ports_distinct [OF registry_env_ok this, of zero_devices initial_globals] show ?thesis
    by (auto simp: initial_globals_def)
qed

end
