(* ===== verification/Stm.thy ===== *)
theory Stm
  imports Sysfs Buffers
begin

text \<open>
  Access to the stimulus ports of the STM: the library \<open>src/stm_preload.c\<close>, whose constructor and destructor map and
  unmap the ports in the traced process, and its predecessor in \<open>src/utils.c\<close> (\<open>setup_stm_region\<close>,
  \<open>clean_stm_region\<close>), which the tracer does not call. The registers that the inline assembly writes are
  part of the state, \<open>None\<close> before the first write.
\<close>

definition STM_STIMULUS_BASE :: u64 where "STM_STIMULUS_BASE = 0xF8000000"
definition STM_MAP_SIZE :: u64 where "STM_MAP_SIZE = 0x1000"

record stm_state = world +
  stm_region_ptr :: u64
  x26 :: "u64 option"
  x28 :: "u64 option"

section \<open>The preloaded library\<close>

definition preload_stm_region :: "env \<Rightarrow> 'z stm_state_scheme \<Rightarrow> (unit \<times> 'z stm_state_scheme) option" where
  "preload_stm_region E s = do {
     (fd, s) \<leftarrow> os_int E (Open ''/dev/mem'') s;
     if fd < 0 then Some ((), s)
     else do {
       (mapped_region, s) \<leftarrow> ask (a_u64 E) (OS (Mmap_file fd STM_MAP_SIZE STM_STIMULUS_BASE)) s;
       if mapped_region = MAP_FAILED then do {
         (_, s) \<leftarrow> os_int E (Close fd) s;
         Some ((), s)
       } else do {
         (_, s) \<leftarrow> os_int E (Close fd) s;
         let s = s\<lparr>stm_region_ptr := mapped_region\<rparr>;
         Some ((), s\<lparr>x26 := Some (stm_region_ptr s)\<rparr>)
       }
     }
   }"

definition unload_stm_region :: "env \<Rightarrow> 'z stm_state_scheme \<Rightarrow> (unit \<times> 'z stm_state_scheme) option" where
  "unload_stm_region E s =
     (if stm_region_ptr s \<noteq> 0 then do {
        (_, s) \<leftarrow> os_int E (Munmap (stm_region_ptr s) STM_MAP_SIZE) s;
        Some ((), s)
      } else Some ((), s))"

section \<open>The procedures of utils.c\<close>

text \<open>\<open>fd\<close> is passed by reference, and is part of the result; \<open>map_base\<close> is passed by value, so what is assigned to it is lost.\<close>

definition setup_stm_region :: "env \<Rightarrow> u64 \<Rightarrow> 'z stm_state_scheme \<Rightarrow> ((int \<times> int) \<times> 'z stm_state_scheme) option" where
  "setup_stm_region E map_base s = do {
     (fd, s) \<leftarrow> os_int E (Open ''/dev/mem'') s;
     if fd < 0 then Some ((-1, fd), s)
     else do {
       (map_base, s) \<leftarrow> ask (a_u64 E) (OS (Mmap_file fd STM_MAP_SIZE STM_STIMULUS_BASE)) s;
       if map_base = MAP_FAILED then do {
         (_, s) \<leftarrow> os_int E (Close fd) s;
         Some ((-1, fd), s)
       } else Some ((0, fd), s\<lparr>x28 := Some STM_STIMULUS_BASE\<rparr>)
     }
   }"

definition clean_stm_region :: "env \<Rightarrow> int \<Rightarrow> u64 \<Rightarrow> 'z stm_state_scheme \<Rightarrow> (unit \<times> 'z stm_state_scheme) option" where
  "clean_stm_region E fd map_base s = do {
     (_, s) \<leftarrow> os_int E (Munmap map_base STM_MAP_SIZE) s;
     (_, s) \<leftarrow> os_int E (Close fd) s;
     Some ((), s)
   }"

section \<open>Mappings\<close>

text \<open>The regions mapped after some calls, in the order of their creation.\<close>

fun region_step :: "env \<Rightarrow> call list \<Rightarrow> call \<Rightarrow> u64 list \<Rightarrow> u64 list" where
  "region_step E h (OS (Mmap_file fd n p)) R =
     (let a = a_u64 E h (OS (Mmap_file fd n p)) in if a = MAP_FAILED then R else R @ [a])"
| "region_step E h (OS (Munmap a n)) R = remove1 a R"
| "region_step E h _ R = R"

fun mapped_regions :: "env \<Rightarrow> call list \<Rightarrow> call list \<Rightarrow> u64 list \<Rightarrow> u64 list" where
  "mapped_regions E h [] R = R"
| "mapped_regions E h (c # cs) R = mapped_regions E (h @ [c]) cs (region_step E h c R)"

section \<open>Properties\<close>

text \<open>C40. The constructor followed by the destructor, in a process that starts with the null pointer: both end, the descriptor of
  \<open>/dev/mem\<close> is closed and every region mapped is unmapped again, on every outcome; while the program runs the
  register \<open>x26\<close> holds the address of the mapped ports exactly if the mapping succeeded.\<close>

theorem stm_preload_balanced:
  assumes "stm_region_ptr s = 0" and "x26 s = None" and "\<And>h fd n p. a_u64 E h (OS (Mmap_file fd n p)) \<noteq> 0"
  shows "\<exists>s1 s2 during after. preload_stm_region E s = Some ((), s1) \<and> unload_stm_region E s1 = Some ((), s2) \<and>
     hist s1 = hist s @ during \<and> hist s2 = hist s @ during @ after \<and>
     open_files E (hist s) during [] = [] \<and> mapped_regions E (hist s) (during @ after) [] = [] \<and>
     x26 s1 = (case mapped_regions E (hist s) during [] of [] \<Rightarrow> None | a # _ \<Rightarrow> Some a)"
proof -
  let ?o = "OS (Open ''/dev/mem'')" and ?fd = "a_int E (hist s) (OS (Open ''/dev/mem''))"
  let ?m = "OS (Mmap_file ?fd STM_MAP_SIZE STM_STIMULUS_BASE)"
  let ?a = "a_u64 E (hist s @ [?o]) ?m"
  consider (failed) "?fd < 0" | (unmapped) "\<not> ?fd < 0" "?a = MAP_FAILED" | (fine) "\<not> ?fd < 0" "?a \<noteq> MAP_FAILED" by blast
  then show ?thesis
  proof cases
    case failed
    then show ?thesis using assms(1,2)
      by (simp add: preload_stm_region_def unload_stm_region_def ask_defs)
  next
    case unmapped
    then show ?thesis using assms(1,2)
      by (simp add: preload_stm_region_def unload_stm_region_def ask_defs)
  next
    case fine
    then show ?thesis using assms
      by (simp add: preload_stm_region_def unload_stm_region_def ask_defs Let_def)
  qed
qed

text \<open>\<open>setup_stm_region\<close> hands the address of the region to nobody, so that \<open>clean_stm_region\<close> unmaps another address and the
  region stays mapped; the register receives the physical address instead.\<close>

lemma setup_stm_region_leaks:
  assumes "setup_stm_region E base s = Some ((0, fd), s1)" and "clean_stm_region E fd base s1 = Some ((), s2)"
    and "\<And>h fd n p. a_u64 E h (OS (Mmap_file fd n p)) \<noteq> base"
  shows "\<exists>new a. hist s2 = hist s @ new \<and> mapped_regions E (hist s) new [] = [a] \<and> x28 s1 = Some STM_STIMULUS_BASE"
  using assms(1,2)
  by (auto simp: setup_stm_region_def clean_stm_region_def ask_defs assms(3) assms(3) [symmetric] split: if_splits)

section \<open>Witness\<close>

theorem stm_preload_balanced_witness:
  "\<exists>s1 s2. preload_stm_region sample_env \<lparr>hist = [], stm_region_ptr = 0, x26 = None, x28 = None\<rparr> = Some ((), s1) \<and>
     unload_stm_region sample_env s1 = Some ((), s2) \<and> mapped_regions sample_env [] (hist s2) [] = []"
  using stm_preload_balanced [of "\<lparr>hist = [], stm_region_ptr = 0, x26 = None, x28 = None\<rparr>" sample_env] by auto

end
