(* ===== verification/Debug.thy ===== *)
theory Debug
  imports MapInfo
begin

text \<open>
  The debugging aids at the top of \<open>src/utils.c\<close>, which no other code calls: \<open>dump_buf\<close> writes a region of memory to a
  file, \<open>dump_maps\<close> copies the memory map of a process to a stream. The result of \<open>dump_maps\<close> is what it prints.
\<close>

definition dump_buf :: "env \<Rightarrow> u8 list \<Rightarrow> string \<Rightarrow> 'z world_scheme \<Rightarrow> (unit \<times> 'z world_scheme) option" where
  "dump_buf E data buf_path s = do {
     (fp, s) \<leftarrow> os_int E (Fopen buf_path ''wb'') s;
     if fp = 0 then Some ((), s)
     else do {
       (_, s) \<leftarrow> os_int E (Fwrite fp data) s;
       (_, s) \<leftarrow> os_int E (Fclose fp) s;
       Some ((), s)
     }
   }"

definition dump_maps :: "env \<Rightarrow> int \<Rightarrow> 'z world_scheme \<Rightarrow> (string \<times> 'z world_scheme) option" where
  "dump_maps E pid s = do {
     (fp, s) \<leftarrow> os_int E (Fopen (maps_path pid) ''r'') s;
     if fp = 0 then Some ([], s)
     else do {
       (text, s) \<leftarrow> ask (a_text E) (OS (Read_text (maps_path pid))) s;
       (_, s) \<leftarrow> os_int E (Fclose fp) s;
       Some (concat (map cstr (getdelims (CHR 0x0A) (stream_text text))), s)
     }
   }"

lemma concat_getdelims: "concat (getdelims d t) = t"
  by (induction t) (auto split: list.split simp: concat_eq_Nil_conv)

lemma getdelims_chars: "p \<in> set (getdelims d t) \<Longrightarrow> set p \<subseteq> set t"
  using concat_getdelims [of d t] by (metis UN_upper set_concat)

text \<open>The lines that \<open>getline\<close> delivers put together again are the whole file, if it contains no null character.\<close>

lemma dump_maps_prints_file:
  assumes "opn = OS (Fopen (maps_path pid) ''r'')" and "a_int E (hist s) opn \<noteq> 0"
    and "a_text E (hist s @ [opn]) (OS (Read_text (maps_path pid))) = Some t" and "CHR 0x00 \<notin> set t"
  shows "\<exists>s'. dump_maps E pid s = Some (t, s')"
proof -
  have "map cstr (getdelims (CHR 0x0A) t) = getdelims (CHR 0x0A) t"
  proof (rule map_idI)
    fix p assume "p \<in> set (getdelims (CHR 0x0A) t)"
    with getdelims_chars assms(4) have "CHR 0x00 \<notin> set p" by blast
    then show "cstr p = p" by (simp add: cstr_def) (metis takeWhile_eq_all_conv)
  qed
  with assms(1-3) show ?thesis by (simp add: dump_maps_def ask_defs concat_getdelims stream_text_def)
qed

end
