(* ===== verification/Spec2Isabelle.thy ===== *)
theory Spec2Isabelle
  imports Cli Boards Stm Debug
begin

text \<open>
  \<^bold>\<open>ultrasight: tracing a process with Arm CoreSight.\<close>

  The program runs a command under trace on a CoreSight board. The process \<open>cs-trace\<close> parses its
  command line and forks; the child asks to be traced and becomes the command; the parent initialises
  a trace session when the child stops for the first time, starts the trace, lets the child run, and on its
  exit stops the trace and writes the collected bytes to \<open>cstrace.bin\<close> (and kernel events to
  \<open>cstrace.ksight\<close>). With the option for it, a second thread of the parent, the fetcher, empties
  the trace sink while the child runs: it stops the child, takes the trace, and continues the child.

  \<^bold>\<open>How the program is modelled.\<close> A C procedure is a function on a state record that returns its
  result and the new state, or \<open>None\<close> when the process ends abnormally (failed assertion, access
  through a null pointer or outside an object) or the procedure does not return. Global variables are fields of the
  record \<open>globals\<close>. Machine integers are words where they can wrap (the trace identifier of a CPU included), and sizes and pointers of
  the buffers are 64-bit words. Streams and directories are opened and closed by calls of their own; the contents
  of a text file are the answer to one call. The CSAL library (a git submodule that is not part of the sources) and the Linux kernel are
  parameters: a procedure acts on them by calls, the calls are recorded in order in the field \<open>hist\<close> of
  the state, and every answer is given by an environment \<open>E\<close>, which may depend on all calls made
  before. Theorems hold for all environments; where the code relies on documented behaviour of a call (what
  \<open>mremap\<close>, \<open>read\<close> or \<open>cs_get_trace_data\<close> may answer), the theorem names it as a hypothesis
  (\<open>mremap_contract\<close>, \<open>trace_data_contract\<close>, \<open>registry\<close>, \<dots>). Loops that might not end are partial functions with
  \<open>None\<close> for not returning, and their termination is proved; no fuel is used.

  \<^bold>\<open>The theories and the sources they model.\<close>
  \<^item> \<open>Prelude\<close>: machine integers, \<open>ALIGN_UP\<close> (\<open>include/utils.h\<close>; it is the rounding up), and the judgements \<open>returns\<close> (total
    correctness) and \<open>ensures\<close> (partial correctness) on procedures.
  \<^item> \<open>Environment\<close>: calls, environments, the calculus of scripts (sequences of checked calls) and the locale
    \<open>csal_operation\<close>, the contract between \<open>config.c\<close> and \<open>common.c\<close>.
  \<^item> \<open>CText\<close>: the text functions of the C library that the program uses, with print/scan round trips.
  \<^item> \<open>Config\<close> (\<open>src/config.c\<close>): configuration, enabling and disabling of sources and sinks. Enabling refines
    its script; no source is enabled before the whole sink path; disabling flushes, then disables the
    sources, then all sinks, with an exact result; a configured source has its own identifier, and the configuration it was given
    last filters address range and context and is flagged to be written.
  \<^item> \<open>TraceState\<close> (\<open>src/common.c\<close>): the state machine with its table of events, and the global variables.
  \<^item> \<open>Buffers\<close> (\<open>src/common.c\<close>, \<open>include/ksight.h\<close>): growing buffers; a fetch keeps the buffer well formed and
    appends exactly the bytes delivered; an export writes exactly the bytes collected.
  \<^item> \<open>MapInfo\<close> (\<open>src/utils.c\<close>): parsing of \<open>/proc/pid/maps\<close>; it records exactly the executable regions of files, and
    stays inside its array for every input.
  \<^item> \<open>Sysfs\<close> (\<open>src/utils.c\<close>): u-dma-buf and ksight attributes; values printed by the driver are read back. Every
    descriptor, stream and directory that a procedure of \<open>utils.c\<close> opens is closed on every path.
  \<^item> \<open>CpuAffinity\<close> (\<open>src/utils.c\<close>): choice of a CPU and binding to it. What a free CPU is, is said of the threads
    of the system and of how the kernel prints them, independently of the scan.
  \<^item> \<open>Session\<close> (\<open>src/common.c\<close>): enabling, disabling with its bounded retry, \<open>init_trace\<close>, \<open>start_trace\<close>,
    \<open>stop_trace\<close>, \<open>fini_trace\<close>, on every outcome.
  \<^item> \<open>Calm\<close>: which procedures send no signal and leave the state machine alone.
  \<^item> \<open>Fetcher\<close> (\<open>fetcher_worker\<close>, \<open>trace_sink_polling\<close> of \<open>src/common.c\<close>, \<open>parent\<close> of \<open>src/cs-trace.c\<close>): the two threads as an
    interleaving of steps between the points where a thread waits or may lose a lock. Invariants of
    all reachable states: the last event announces the state, and the stop of the child has been reported, with no \<open>SIGCONT\<close> sent since, while the
    trace is taken.
    Without a fetcher every run after the child's exit ends with the export; with one, the tracer hangs after the
    first fetch, as the kernel does not report a continuation as a stop.
  \<^item> \<open>Parent\<close> (\<open>src/cs-trace.c\<close>): \<open>parent\<close> as sequential code, equivalent to the interleaved model when there is no fetcher.
  \<^item> \<open>Cli\<close> (\<open>src/cs-trace.c\<close>): \<open>getopt_long\<close> as documented, \<open>main\<close>, \<open>child\<close>. Long options round trip; parsing is total.
  \<^item> \<open>Boards\<close> (\<open>include/known_boards.h\<close>): the registrations of the boards and the locale \<open>trace_board\<close>, their contract; on
    every board the trace of every CPU reaches the sinks.
  \<^item> \<open>Stm\<close> (\<open>src/stm_preload.c\<close>, \<open>src/utils.c\<close>): mapping and unmapping of the stimulus ports.
  \<^item> \<open>Debug\<close> (\<open>src/utils.c\<close>): the debugging dumps.

  This theory holds the properties that span components: the CPU asked for on the command line is the one
  that the process is bound to, and a whole run of \<open>main\<close> exports exactly the bytes that the sink delivers when it is read after
  the exit of the child. The reading is pinned by \<open>fetch_calls\<close> (\<open>Buffers\<close>), the calls of one fetch with the bytes it delivers, and the writing
  by \<open>file_write\<close> (\<open>Session\<close>).

  \<^bold>\<open>Not modelled.\<close> Messages on the standard streams other than the dump of the memory map, the measurement of the elapsed time, and the usage text;
  the mutexes as such (the critical sections are single steps); variables that are never used (\<open>trace_bitmap\<close>,
  \<open>fifo_sw\<close>, \<open>fd\<close>, \<open>map_base\<close> of \<open>common.c\<close>, \<open>struct mmap_params\<close>); functions that are declared but not defined
  (\<open>decode_trace\<close>, \<open>export_decoder_args\<close>); CSAL itself, the kernel and its modules; the test programs under \<open>tests/\<close>, the
  makefile and the decoder scripts, which are not part of the tracer.
\<close>

section \<open>From the command line to the bound process\<close>

lemma set_cpu_affinity_call:
  assumes "set_cpu_affinity E cpu pid s = Some (r, s')" and "\<not> r < 0" and "0 \<le> cpu" and "cpu < 2 ^ 31"
    and "\<And>h. cpu < a_int E h (OS Get_nprocs)"
  shows "OS (Sched_setaffinity pid {nat cpu}) \<in> set (hist s')"
proof -
  have "nat cpu < 8 * CPU_ALLOC_SIZE (a_int E (hist s) (OS Get_nprocs))"
    using assms(3) assms(5) [of "hist s"] by (intro CPU_ALLOC_SIZE_covers) simp
  moreover have "unat (size_t_of_int cpu) = nat cpu" using assms(3,4) by (intro unat_size_t_of_int) simp_all
  ultimately show ?thesis using assms(1,2)
    by (auto simp: set_cpu_affinity_def alloc_cpu_set_def ask_defs CPU_SET_S_def Let_def split: if_splits)
qed

lemma moves_hist: "moves (set_trace_state st) s m \<Longrightarrow> m = Some (r, s') \<Longrightarrow> \<exists>cs. hist s' = hist s @ cs"
  by (auto simp: moves_def ensures_def calm_to_def set_trace_state_def signal_trace_event_def Let_def)

lemma start_trace_binds:
  fixes s :: globals
  assumes "start_trace E pid True s = Some (0, s')" and "0 \<le> trace_cpu s" and "trace_cpu s < 2 ^ 31"
    and "\<And>h. trace_cpu s < a_int E h (OS Get_nprocs)"
  shows "OS (Sched_setaffinity pid {nat (trace_cpu s)}) \<in> set (hist s')"
proof -
  obtain r t where t: "set_cpu_affinity E (trace_cpu s) pid s = Some (r, t)"
    using assms(1) by (cases "set_cpu_affinity E (trace_cpu s) pid s") (auto simp: start_trace_def)
  have r: "\<not> r < 0" using assms(1) t by (auto simp: start_trace_def)
  obtain cs where "hist s' = hist t @ cs"
    using moves_hist [OF start_rest_moves [of t E pid pid], of 0 s'] assms(1) t r by (auto simp: start_trace_def)
  then show ?thesis using set_cpu_affinity_call [OF t r assms(2-4)] by simp
qed

text \<open>C20. From the command line to the hardware: with \<open>--cpu=n\<close> a successful initialisation and start run the given program as
  the traced one, bound to exactly the CPU \<open>n\<close>, with the trace identifier of that CPU (as long as it is an \<open>int\<close>), and in the
  running state.\<close>

theorem requested_cpu_traced:
  fixes s s0 s1 s2 :: globals
  assumes "0 \<le> n" and "n < 2 ^ 31" and "\<And>h. n < a_int E h (OS Get_nprocs)"
    and "parse_cli (argv0 # (''--cpu='' @ print_int n) # ''--'' # prog # args) s = Some (c, s0)"
    and "init_trace E v ppid pid s0 = Some (0, s1)" and "start_trace E pid True s1 = Some (0, s2)"
  shows "c = Trace (prog # args) \<and> trace_id s1 = (if n < 2 ^ 31 - 16 then 0x10 + n else 0x10 + n - 2 ^ 32) \<and>
     OS (Sched_setaffinity pid {nat n}) \<in> set (hist s2) \<and>
     trace_state s2 = running_state \<and> child_pid s2 = pid"
proof -
  have "c = Trace (prog # args) \<and> s0 = s\<lparr>registration_verbose := 0, trace_cpu := n\<rparr>"
    using assms(4) parse_long_options [of "[Cpu n]" "prog # args" argv0 s] assms(1,2) by simp
  then have c: "c = Trace (prog # args)" and s0: "trace_cpu s0 = n" by simp_all
  from assms(5) have "init_steps E v ppid pid s0 = Some (0, s1)"
    by (auto simp: init_trace_def bind_eq_Some_conv ask_defs split: if_splits)
  from ensuresD [OF init_steps_outcome this] s0 assms(1)
  have s1: "trace_cpu s1 = n" "trace_id s1 = (if n < 2 ^ 31 - 16 then 0x10 + n else 0x10 + n - 2 ^ 32)"
    using get_trace_id_cases [OF assms(1,2)] by (simp_all add: initialised_def)
  have "OS (Sched_setaffinity pid {nat n}) \<in> set (hist s2)"
    using start_trace_binds [OF assms(6)] assms(1-3) s1(1) by simp
  with c s1(2) ensuresD [OF start_trace_started assms(6)] show ?thesis by (simp add: started_def)
qed

theorem requested_cpu_traced_witness:
  "\<exists>s1 s2. init_trace hang_env any_locals 1 77 hang_state = Some (0, s1) \<and> start_trace hang_env 77 True s1 = Some (0, s2) \<and>
     trace_id s1 = 0x12 \<and> OS (Sched_setaffinity 77 {2}) \<in> set (hist s2)"
proof -
  let ?s = "initial_globals\<lparr>is_first_trace := False, fetcher_on := True\<rparr>"
  have p: "parse_cli (''cs-trace'' # (''--cpu='' @ print_int 2) # ''--'' # ''./a.out'' # []) ?s = Some (Trace [''./a.out''], hang_state)"
    using parse_long_options [of "[Cpu 2]" "[''./a.out'']" "''cs-trace''" ?s] by (simp add: hang_state_def initial_globals_def)
  have "hang_state\<lparr>hist := []\<rparr> = hang_state" by (simp add: hang_state_def initial_globals_def)
  with hang_init [of "[]"] obtain s1 where i: "init_trace hang_env any_locals 1 77 hang_state = Some (0, s1)"
    "prepared s1" "trace_state s1 = ready_state" "trace_cpu s1 = 2" by auto
  from hang_start [OF i(2-4)] obtain s2 where s: "start_trace hang_env 77 True s1 = Some (0, s2)" by blast
  have "2 < a_int hang_env h (OS Get_nprocs)" for h by (simp add: session_int_def)
  from requested_cpu_traced [OF _ _ this p i(1) s] i(1) s show ?thesis by simp
qed

section \<open>A whole run\<close>

text \<open>\<open>parent\<close> when the child stops at its first instruction, and at the next wait has exited with status 0.\<close>

lemma parent_normal_run:
  fixes s :: globals
  assumes "a_wait E (hist s) (OS (Waitpid pid)) = Stopped Stop_SIGTRAP"
    and "init_trace E v ppid pid (s\<lparr>hist := hist s @ [OS (Waitpid pid)]\<rparr>) = Some (r2, s2)"
    and "start_trace E pid True s2 = Some (r3, s3)" and "\<not> ksight_on s3"
    and "a_wait E (hist s3 @ [OS (Ptrace_detach pid)]) (OS (Waitpid pid)) = Exited 0"
  shows "parent E v ppid pid F s = parent_finish E F (s3\<lparr>hist := hist s3 @ [OS (Ptrace_detach pid), OS (Waitpid pid)]\<rparr>)"
  using assms
  by (simp add: parent_def waitpid_def ask_defs ksight_begin_def parent_loop.simps [of E pid F "s3\<lparr>hist := hist s3 @ [OS (Ptrace_detach pid)]\<rparr>"]
      handle_status_def)

text \<open>C1. A whole run, from the command line to the file: without a fetcher and without ksight, if the options are parsed, the process can
  be forked, the session initialised and started, and the child then exits with status 0, \<open>main\<close> returns with status 0. After the
  start its calls are, in this order: the detaching of the child and the wait for it, those of \<open>disable_cs_trace\<close>, those of one fetch from
  the ETR, which delivers \<open>data\<close>, the write of \<open>data\<close>, exactly, to the file \<open>cstrace.bin\<close>, the release of the buffer,
  during which nothing is written, the shutdown of CSAL and the final wait.\<close>

theorem traced_command_exports:
  fixes s s0 s2 s3 :: globals
  assumes "parse_cli argv s = Some (Trace prog, s0)" and "\<not> fetcher_on s0" and "\<not> ksight_on s0" and "registration_verbose s0 = 0"
    and "a_int E (hist s0) (OS Fork) = pid" and "0 < pid"
    and "a_wait E (hist s0 @ [OS Fork]) (OS (Waitpid pid)) = Stopped Stop_SIGTRAP"
    and "init_trace E v ppid pid (s0\<lparr>hist := hist s0 @ [OS Fork, OS (Waitpid pid)]\<rparr>) = Some (0, s2)" and "board s2 = Some b"
    and "start_trace E pid True s2 = Some (0, s3)"
    and "a_wait E (hist s3 @ [OS (Ptrace_detach pid)]) (OS (Waitpid pid)) = Exited 0"
    and "\<And>h. mapping_at (a_u64 E h (OS (Mmap DEFAULT_TRACE_SIZE))) DEFAULT_TRACE_SIZE"
    and "mremap_contract E" and "unread_contract E" and "trace_data_contract E"
    and "\<And>h. a_text E h (OS Getcwd) = Some cwd" and "\<And>h f m. a_int E h (OS (Fopen f m)) \<noteq> 0"
    and "h0 = hist s3 @ [OS (Ptrace_detach pid), OS (Waitpid pid)]"
  shows "\<exists>s' r dis new data rest. cs_trace_main E v ppid F argv s = Some (Status 0, s') \<and>
     disable_cs_trace E True (s3\<lparr>hist := h0\<rparr>) = Some (r, s3\<lparr>hist := h0 @ dis\<rparr>) \<and>
     fetch_calls E (etb (devices s3)) (h0 @ dis) new data \<and> no_fwrite rest \<and>
     hist s' = h0 @ dis @ new @ file_write E (h0 @ dis @ new) cwd ''cstrace.bin'' data @ rest @ [CS Cs_shutdown, OS Wait]"
proof -
  from assms(8) have "init_steps E v ppid pid (s0\<lparr>hist := hist s0 @ [OS Fork, OS (Waitpid pid)]\<rparr>) = Some (0, s2)"
    by (auto simp: init_trace_def bind_eq_Some_conv ask_defs split: if_splits)
  from ensuresD [OF init_steps_outcome this] assms(2-4)
  have s2: "\<not> fetcher_on s2" "\<not> ksight_on s2" "registration_verbose s2 = 0" by (auto simp: initialised_def settings_def)
  from ensuresD [OF start_trace_started assms(10)] obtain h where
    s3: "\<not> fetcher_on s3" "\<not> ksight_on s3" "registration_verbose s3 = 0" "board s3 = Some b"
    "trace_buf s3 = snd (alloc_buf (a_u64 E h (OS (Mmap DEFAULT_TRACE_SIZE))) (trace_buf s2))"
    using s2 assms(9) by (auto simp: started_def)
  note buf = alloc_buf_ok(2,3) [OF assms(12), of h "trace_buf s2", folded s3(5)]
  then have "off (trace_buf s3) = 0" by (simp add: contents_def)
  then have pad: "pad8 (off (trace_buf s3)) = 0" by (simp add: pad8_def)
  let ?t = "s3\<lparr>hist := h0\<rparr>"
  obtain s' r dis new data rest where f: "parent_finish E F ?t = Some ((), s')"
    "disable_cs_trace E True ?t = Some (r, s3\<lparr>hist := h0 @ dis\<rparr>)" "fetch_calls E (etb (devices s3)) (h0 @ dis) new data"
    "no_fwrite rest" "hist s' = h0 @ dis @ new @ file_write E (h0 @ dis @ new) cwd ''cstrace.bin'' data @ rest @ [CS Cs_shutdown]"
    using finish_exports [of ?t b E cwd F, OF _ _ _ _ _ assms(13-17)] s3(1-4) buf pad by auto
  have "parent E v ppid pid F (s0\<lparr>hist := hist s0 @ [OS Fork]\<rparr>) = Some ((), s')"
    using parent_normal_run [of E "s0\<lparr>hist := hist s0 @ [OS Fork]\<rparr>" pid v ppid 0 s2 0 s3 F] assms(7,8,10,11,18) s3(2) f(1) by simp
  then have "cs_trace_main E v ppid F argv s = Some (Status 0, s'\<lparr>hist := hist s' @ [OS Wait]\<rparr>)"
    using assms(1,5,6) by (simp add: cs_trace_main_def ask_defs)
  with f show ?thesis
    by (intro exI [of _ "s'\<lparr>hist := hist s' @ [OS Wait]\<rparr>"] exI [of _ r] exI [of _ dis] exI [of _ new] exI [of _ data] exI [of _ rest])
      simp
qed

text \<open>A child that is stopped at its first instruction and exits.\<close>

definition run_env :: env where
  "run_env = session_env\<lparr>a_int := (\<lambda>h c. case c of OS Fork \<Rightarrow> 77 | _ \<Rightarrow> session_int h c),
     a_wait := (\<lambda>h _. if h = [OS Fork] then Stopped Stop_SIGTRAP else Exited 0)\<rparr>"

lemma run_env_like_session: "like_session run_env"
proof -
  have "a_int run_env h (CS c) = session_int h (CS c)" "c' \<noteq> Fork \<Longrightarrow> a_int run_env h (OS c') = session_int h (OS c')" for h c c'
    by (simp_all add: run_env_def split: os_call.split)
  with session_like_session show ?thesis by (simp add: like_session_def like_sample_def run_env_def)
qed

lemma run_env_contracts:
  "mremap_contract run_env" "unread_contract run_env" "trace_data_contract run_env"
  using session_contracts by (simp_all add: mremap_contract_def unread_contract_def trace_data_contract_def run_env_def)

theorem traced_command_exports_witness:
  "\<exists>s' h new data rest. cs_trace_main run_env any_locals 1 (\<lambda>_. None) [''cs-trace'', ''--cpu=2'', ''--'', ''./a.out'']
       (initial_globals\<lparr>is_first_trace := False\<rparr>) = Some (Status 0, s') \<and> fetch_calls run_env (etb sample_devices) h new data \<and>
     hist s' = h @ new @ [OS Getcwd, OS (Fopen ''/tmp/cstrace.bin'' ''wb''), OS (Fwrite 5 data), OS (Fclose 5)]
       @ rest @ [CS Cs_shutdown, OS Wait]"
proof -
  let ?s = "initial_globals\<lparr>is_first_trace := False\<rparr>"
  let ?u = "\<lambda>h. initial_globals\<lparr>hist := h, trace_cpu := 2, is_first_trace := False, fetcher_on := False\<rparr>"
  have p: "parse_cli [''cs-trace'', ''--cpu=2'', ''--'', ''./a.out''] ?s = Some (Trace [''./a.out''], ?u [])"
    using parse_long_options [of "[Cpu 2]" "[''./a.out'']" "''cs-trace''" ?s]
    by (simp add: initial_globals_def print_int_def print_nat.simps digit_char_def)
  obtain s2 where s2: "init_trace run_env any_locals 1 77 (?u [OS Fork, OS (Waitpid 77)]) = Some (0, s2)" "devices s2 = sample_devices"
    "board s2 = Some sample_board" "\<not> is_first_trace s2" "\<not> ksight_on s2" "trace_state s2 = ready_state" "trace_cpu s2 = 2"
    using init_like_session [OF run_env_like_session] by blast
  obtain s3 where s3: "start_trace run_env 77 True s2 = Some (0, s3)" "devices s3 = sample_devices"
    using start_like_session [OF run_env_like_session s2(2,4-7)] by blast
  have f: "a_int run_env h (OS (Fopen n m)) \<noteq> 0" for h n m by (simp add: run_env_def session_int_def)
  have m: "mapping_at (a_u64 run_env h (OS (Mmap DEFAULT_TRACE_SIZE))) DEFAULT_TRACE_SIZE" for h
    by (simp add: run_env_def mapping_at_def VA_LIMIT_def DEFAULT_TRACE_SIZE_def)
  have w: "a_wait run_env (hist s3 @ [OS (Ptrace_detach 77)]) (OS (Waitpid 77)) = Exited 0" by (simp add: run_env_def)
  have k: "a_int run_env (hist (?u [])) (OS Fork) = 77" "a_wait run_env (hist (?u []) @ [OS Fork]) (OS (Waitpid 77)) = Stopped Stop_SIGTRAP"
    by (simp_all add: run_env_def)
  have i: "init_trace run_env any_locals 1 77 ((?u [])\<lparr>hist := hist (?u []) @ [OS Fork, OS (Waitpid 77)]\<rparr>) = Some (0, s2)"
    using s2(1) by (simp add: initial_globals_def)
  have c: "a_text run_env h (OS Getcwd) = Some ''/tmp''" for h by (simp add: run_env_def)
  have fw: "file_write run_env h ''/tmp'' ''cstrace.bin'' d =
      [OS Getcwd, OS (Fopen ''/tmp/cstrace.bin'' ''wb''), OS (Fwrite 5 d), OS (Fclose 5)]" for h d
    by (simp add: file_write_def run_env_def session_int_def PATH_MAX_def)
  have g: "\<not> fetcher_on (?u [])" "\<not> ksight_on (?u [])" "registration_verbose (?u []) = 0" by (simp_all add: initial_globals_def)
  obtain s' r dis new data rest where "cs_trace_main run_env any_locals 1 (\<lambda>_. None) [''cs-trace'', ''--cpu=2'', ''--'', ''./a.out''] ?s = Some (Status 0, s')"
    "fetch_calls run_env (etb sample_devices) ((hist s3 @ [OS (Ptrace_detach 77), OS (Waitpid 77)]) @ dis) new data"
    "hist s' = (hist s3 @ [OS (Ptrace_detach 77), OS (Waitpid 77)]) @ dis @ new
      @ [OS Getcwd, OS (Fopen ''/tmp/cstrace.bin'' ''wb''), OS (Fwrite 5 data), OS (Fclose 5)] @ rest @ [CS Cs_shutdown, OS Wait]"
    using traced_command_exports [OF p g k(1) zero_less_numeral k(2) i s2(3) s3(1) w m run_env_contracts c f refl, of "\<lambda>_. None"]
    unfolding fw s3(2) by blast
  then show ?thesis
    by (intro exI [of _ s'] exI [of _ "(hist s3 @ [OS (Ptrace_detach 77), OS (Waitpid 77)]) @ dis"] exI [of _ new] exI [of _ data]
        exI [of _ rest]) simp
qed

end
